theory Spec2Isabelle
  imports Main "HOL-Library.Word"
begin

unbundle bit_operations_syntax

section \<open>Values shared by the whole development\<close>

text \<open>
  A Python \<open>bytes\<close> object is a list of 8-bit words; Python's unbounded integers are
  \<open>int\<close>; list positions and sizes are \<open>nat\<close>. Every exception the modelled code can raise
  is a value of \<open>error\<close>, carried in the left summand of the result.
\<close>

type_synonym byte = "8 word"

datatype error = StructError | IndexError | ValueError | AssertionError | KeyError

type_synonym pixel = "int \<times> int \<times> int \<times> int"

text \<open>\<open>xs[i:j]\<close> for non-negative bounds: out-of-range bounds are clipped, never an error.\<close>

definition slice :: "'a list \<Rightarrow> nat \<Rightarrow> nat \<Rightarrow> 'a list" where
  "slice xs i j = take (j - i) (drop i xs)"

text \<open>\<open>xs[i:j]\<close> for arbitrary integer bounds: a negative bound counts from the end.\<close>

definition py_slice :: "'a list \<Rightarrow> int \<Rightarrow> int \<Rightarrow> 'a list" where
  "py_slice xs i j =
     (let n = int (length xs);
          lo = (if i < 0 then max (n + i) 0 else min i n);
          hi = (if j < 0 then max (n + j) 0 else min j n)
      in take (nat (hi - lo)) (drop (nat lo) xs))"

section \<open>Pixel formats\<close>

datatype format =
  RGBA8 | RGB8 | RGBA5551 | RGB565 | RGBA4 | LA8 | HILO8 | L8 | A8 | LA4 | L4 | A4 | ETC1 | ETC1A4

fun format_size :: "format \<Rightarrow> nat" where
  "format_size RGBA8 = 32"
| "format_size RGB8 = 24"
| "format_size RGBA5551 = 16"
| "format_size RGB565 = 16"
| "format_size RGBA4 = 16"
| "format_size LA8 = 16"
| "format_size HILO8 = 16"
| "format_size L8 = 8"
| "format_size A8 = 8"
| "format_size LA4 = 8"
| "format_size L4 = 4"
| "format_size A4 = 4"
| "format_size ETC1 = 64"
| "format_size ETC1A4 = 128"

text \<open>\<open>Format(value)\<close>: the enum member with that value, \<open>ValueError\<close> when there is none.\<close>

definition format_of_value :: "nat \<Rightarrow> error + format" where
  "format_of_value v =
     (if v < 14
      then Inr ([RGBA8, RGB8, RGBA5551, RGB565, RGBA4, LA8, HILO8, L8, A8, LA4, L4, A4, ETC1, ETC1A4] ! v)
      else Inl ValueError)"

section \<open>Pixel codec: \<open>_get_pixel_data\<close> and \<open>_get_tglp_pixel_data\<close>\<close>

text \<open>
  The decoder. Each \<open>struct.unpack('nB', data[a:b])\<close> raises \<open>struct.error\<close> unless the
  slice has exactly \<open>n\<close> bytes; \<open>data[index // 2]\<close> raises \<open>IndexError\<close> out of range.
\<close>

definition get_pixel_data :: "format \<Rightarrow> byte list \<Rightarrow> nat \<Rightarrow> error + pixel" where
  "get_pixel_data fmt data index =
     (case fmt of
        RGBA8 \<Rightarrow>
          (let s = slice data (index * 4) (index * 4 + 4) in
           if length s \<noteq> 4 then Inl StructError
           else Inr (uint (s ! 0), uint (s ! 1), uint (s ! 2), uint (s ! 3)))
      | RGB8 \<Rightarrow>
          (let s = slice data (index * 3) (index * 3 + 3) in
           if length s \<noteq> 3 then Inl StructError
           else Inr (uint (s ! 0), uint (s ! 1), uint (s ! 2), 255))
      | RGBA5551 \<Rightarrow>
          (let s = slice data (index * 2) (index * 2 + 2) in
           if length s \<noteq> 2 then Inl StructError
           else let b1 = uint (s ! 0); b2 = uint (s ! 1);
                    red = (drop_bit 3 b1) AND 0x1F;
                    green = (b1 AND 0x07) OR ((drop_bit 6 b2) AND 0x03);
                    blue = (drop_bit 1 b2) AND 0x1F;
                    alpha = (b2 AND 0x01) * 255
                in Inr (red, green, blue, alpha))
      | RGB565 \<Rightarrow>
          (let s = slice data (index * 2) (index * 2 + 2) in
           if length s \<noteq> 2 then Inl StructError
           else let b1 = uint (s ! 0); b2 = uint (s ! 1);
                    red = (drop_bit 3 b1) AND 0x1F;
                    green = (b1 AND 0x7) OR ((drop_bit 5 b2) AND 0x7);
                    blue = b2 AND 0x1F;
                    alpha = 255
                in Inr (red, green, blue, alpha))
      | RGBA4 \<Rightarrow>
          (let s = slice data (index * 2) (index * 2 + 2) in
           if length s \<noteq> 2 then Inl StructError
           else let b1 = uint (s ! 0); b2 = uint (s ! 1);
                    red = ((drop_bit 4 b1) AND 0x0F) * 0x11;
                    alpha = (b1 AND 0x0F) * 0x11;
                    blue = ((drop_bit 4 b2) AND 0x0F) * 0x11;
                    green = (b2 AND 0x0F) * 0x11
                in Inr (red, green, blue, alpha))
      | LA8 \<Rightarrow>
          (let s = slice data (index * 2) (index * 2 + 2) in
           if length s \<noteq> 2 then Inl StructError
           else let l = uint (s ! 0); alpha = uint (s ! 1)
                in Inr (l, l, l, alpha))
      | HILO8 \<Rightarrow> Inr (0, 0, 0, 0)
      | L8 \<Rightarrow>
          (let s = slice data index (index + 1) in
           if length s \<noteq> 1 then Inl StructError
           else let l = uint (s ! 0) in Inr (l, l, l, 255))
      | A8 \<Rightarrow>
          (let s = slice data index (index + 1) in
           if length s \<noteq> 1 then Inl StructError
           else let alpha = uint (s ! 0) in Inr (255, 255, 255, alpha))
      | LA4 \<Rightarrow>
          (let s = slice data index (index + 1) in
           if length s \<noteq> 1 then Inl StructError
           else let la = uint (s ! 0);
                    l = ((drop_bit 4 la) AND 0x0F) * 0x11;
                    alpha = (la AND 0x0F) * 0x11
                in Inr (l, l, l, alpha))
      | L4 \<Rightarrow>
          (if index div 2 \<ge> length data then Inl IndexError
           else let l = uint (data ! (index div 2));
                    l = (if index AND 1 = 1 then drop_bit 4 l else l);
                    l = l AND 0x0F
                in Inr (l * 0x11, l * 0x11, l * 0x11, 255))
      | A4 \<Rightarrow>
          (if index div 2 \<ge> length data then Inl IndexError
           else let a = uint (data ! (index div 2));
                    a = (if index AND 1 = 1 then drop_bit 4 a else a);
                    a = a AND 0x0F
                in Inr (0xFF, 0xFF, 0xFF, a * 0x11))
      | ETC1 \<Rightarrow> Inr (0, 0, 0, 0)
      | ETC1A4 \<Rightarrow> Inr (0, 0, 0, 0))"

text \<open>
  The encoder. The three luma-bearing branches compute
  \<open>int(red * 0.2126 + green * 0.7152 + blue * 0.0722)\<close> in double-precision floating point;
  that computation is the parameter \<open>luma\<close> of the model, so that nothing proved below
  depends on how the doubles round.
\<close>

definition get_tglp_pixel_data ::
  "(int \<Rightarrow> int \<Rightarrow> int \<Rightarrow> int) \<Rightarrow> pixel list \<Rightarrow> nat \<Rightarrow> format \<Rightarrow> error + int list" where
  "get_tglp_pixel_data luma bmp index fmt =
     (if index \<ge> length bmp then Inl IndexError
      else case bmp ! index of (red, green, blue, alpha) \<Rightarrow>
        (case fmt of
           RGBA8 \<Rightarrow> Inr [red, green, blue, alpha]
         | RGB8 \<Rightarrow> Inr [red, green, blue]
         | RGBA5551 \<Rightarrow>
             (let r5 = (red div 8) AND 0x1F;
                  g5 = (green div 8) AND 0x1F;
                  b5 = (blue div 8) AND 0x1F;
                  a = (if alpha > 0 then 1 else 0);
                  b1 = (push_bit 3 r5) OR (drop_bit 2 g5);
                  b2 = ((push_bit 6 g5) OR (push_bit 1 b5) OR a) AND 0xFF
              in Inr [b1, b2])
         | RGB565 \<Rightarrow>
             (let r5 = (red div 8) AND 0x1F;
                  g6 = (green div 4) AND 0x3F;
                  b5 = (blue div 8) AND 0x1F;
                  b1 = (push_bit 3 r5) OR (drop_bit 3 g6);
                  b2 = ((push_bit 5 g6) OR b5) AND 0xFF
              in Inr [b1, b2])
         | RGBA4 \<Rightarrow>
             (let r4 = (red div 0x11) AND 0x0F;
                  g4 = (green div 0x11) AND 0x0F;
                  b4 = (blue div 0x11) AND 0x0F;
                  a4 = (alpha div 0x11) AND 0x0F;
                  b1 = (push_bit 4 r4) OR g4;
                  b2 = (push_bit 4 b4) OR a4
              in Inr [b1, b2])
         | LA8 \<Rightarrow> (let l = luma red green blue in Inr [l, alpha])
         | HILO8 \<Rightarrow> Inl AssertionError
         | L8 \<Rightarrow> (let l = luma red green blue in Inr [l])
         | A8 \<Rightarrow> Inr [alpha]
         | LA4 \<Rightarrow>
             (let l = luma red green blue div 0x11;
                  a = (alpha div 0x11) AND 0x0F;
                  b = (push_bit 4 l) OR a
              in Inr [b])
         | L4 \<Rightarrow>
             (let l = luma red green blue;
                  shift = (index AND 1) * 4
              in Inr [push_bit shift l])
         | A4 \<Rightarrow>
             (let alpha = (alpha div 0x11) AND 0xF;
                  shift = (index AND 1) * 4
              in Inr [push_bit shift alpha])
         | ETC1 \<Rightarrow> Inl AssertionError
         | ETC1A4 \<Rightarrow> Inl AssertionError))"

text \<open>
  \<open>struct.pack('%dB' % len(data), *data)\<close>, the step of \<open>save\<close> that turns the integers of
  an assembled sheet into bytes: \<open>struct.error\<close> when an element is not in \<open>0..255\<close>.
\<close>

definition pack_B :: "int list \<Rightarrow> error + byte list" where
  "pack_B xs =
     (if list_all (\<lambda>x. 0 \<le> x \<and> x \<le> 255) xs then Inr (map word_of_int xs) else Inl StructError)"

section \<open>Tile traversal: \<open>visit_pixels\<close>\<close>

text \<open>
  The eight nested loops of \<open>visit_pixels\<close>, in the source's order. Each iteration computes
  the pair \<open>(bmp_pos, sheet_data_pos)\<close>: the row-major position of the pixel in the bitmap and
  its position, counted in pixels, in the swizzled sheet.
\<close>

definition visit_positions :: "nat \<Rightarrow> nat \<Rightarrow> (nat \<times> nat) list" where
  "visit_positions width height =
     [ (let pixel_x = x3 + (x2 * 2) + (x * 4) + (tile_x * 8);
            pixel_y = y3 + (y2 * 2) + (y * 4) + (tile_y * 8);
            data_x = x3 + (x2 * 4) + (x * 16) + (tile_x * 64);
            data_y = (y3 * 2) + (y2 * 8) + (y * 32) + (tile_y * width * 8);
            sheet_data_pos = data_x + data_y;
            bmp_pos = pixel_x + (pixel_y * width)
        in (bmp_pos, sheet_data_pos)).
       tile_y \<leftarrow> [0..<height div 8], tile_x \<leftarrow> [0..<width div 8],
       y \<leftarrow> [0..<2], x \<leftarrow> [0..<2],
       y2 \<leftarrow> [0..<2], x2 \<leftarrow> [0..<2],
       y3 \<leftarrow> [0..<2], x3 \<leftarrow> [0..<2] ]"

text \<open>
  The body of the innermost loop: the two \<open>continue\<close> guards, then the callback. The callback
  mutates the bitmap or the sheet, so it returns both; the guards read the lengths the two
  buffers have at that moment.
\<close>

fun visit_loop ::
  "(format \<Rightarrow> 'b list \<Rightarrow> nat \<Rightarrow> 'd list \<Rightarrow> nat \<Rightarrow> error + ('b list \<times> 'd list)) \<Rightarrow> format \<Rightarrow>
   (nat \<times> nat) list \<Rightarrow> 'b list \<Rightarrow> 'd list \<Rightarrow> error + ('b list \<times> 'd list)" where
  "visit_loop vistor fmt [] bmp sheet_data = Inr (bmp, sheet_data)"
| "visit_loop vistor fmt ((bmp_pos, sheet_data_pos) # rest) bmp sheet_data =
     (if bmp_pos \<ge> length bmp then visit_loop vistor fmt rest bmp sheet_data
      else if (sheet_data_pos * format_size fmt) div 8 \<ge> length sheet_data
        then visit_loop vistor fmt rest bmp sheet_data
      else case vistor fmt bmp bmp_pos sheet_data sheet_data_pos of
             Inl e \<Rightarrow> Inl e
           | Inr (bmp', sheet_data') \<Rightarrow> visit_loop vistor fmt rest bmp' sheet_data')"

definition visit_pixels ::
  "(format \<Rightarrow> 'b list \<Rightarrow> nat \<Rightarrow> 'd list \<Rightarrow> nat \<Rightarrow> error + ('b list \<times> 'd list)) \<Rightarrow> nat \<Rightarrow> nat \<Rightarrow>
   format \<Rightarrow> 'b list \<Rightarrow> 'd list \<Rightarrow> error + ('b list \<times> 'd list)" where
  "visit_pixels vistor width height fmt bmp sheet_data =
     visit_loop vistor fmt (visit_positions width height) bmp sheet_data"

text \<open>
  \<open>1 << int(math.ceil(math.log(n, 2)))\<close>: \<open>math.log\<close> raises \<open>ValueError\<close> at 0; otherwise
  the least power of two that is at least \<open>n\<close>. The logarithm is computed in floating point
  in the source and exactly here; the two agree for every \<open>n\<close> a 16-bit header field can hold.
\<close>

function pow2_at_least :: "nat \<Rightarrow> nat \<Rightarrow> nat" where
  "pow2_at_least p n = (if n \<le> p \<or> p = 0 then p else pow2_at_least (2 * p) n)"
  by pat_completeness auto
termination
  by (relation "measure (\<lambda>(p, n). n - p)") auto

definition round_up_pow2 :: "nat \<Rightarrow> error + nat" where
  "round_up_pow2 n = (if n = 0 then Inl ValueError else Inr (pow2_at_least 1 n))"

section \<open>Sheet assembly: \<open>_sheet_to_bitmap\<close> and \<open>_bitmap_to_sheet\<close>\<close>

definition sheet_to_bitmap_vistor ::
  "format \<Rightarrow> pixel list \<Rightarrow> nat \<Rightarrow> byte list \<Rightarrow> nat \<Rightarrow> error + (pixel list \<times> byte list)" where
  "sheet_to_bitmap_vistor fmt bmp bmp_pos sheet_data sheet_data_pos =
     (case get_pixel_data fmt sheet_data sheet_data_pos of
        Inl e \<Rightarrow> Inl e
      | Inr px \<Rightarrow> if bmp_pos \<ge> length bmp then Inl IndexError
                  else Inr (bmp[bmp_pos := px], sheet_data))"

definition sheet_to_bitmap :: "nat \<Rightarrow> nat \<Rightarrow> format \<Rightarrow> byte list \<Rightarrow> error + pixel list" where
  "sheet_to_bitmap sheet_width sheet_height fmt sheet_data =
     (case round_up_pow2 sheet_width of Inl e \<Rightarrow> Inl e | Inr width \<Rightarrow>
     (case round_up_pow2 sheet_height of Inl e \<Rightarrow> Inl e | Inr height \<Rightarrow>
     (case visit_pixels sheet_to_bitmap_vistor width height fmt
             (replicate (width * height) (0, 0, 0, 0)) sheet_data of
        Inl e \<Rightarrow> Inl e
      | Inr (bmp, _) \<Rightarrow> Inr bmp)))"

text \<open>
  The callback of \<open>_bitmap_to_sheet\<close>. \<open>sheet_data\<close> is a Python list of integers there, so
  the slice assignment of the multi-byte branch may lengthen it, and \<open>|=\<close> may leave a value
  above 255 in it.
\<close>

definition bitmap_to_sheet_vistor ::
  "(int \<Rightarrow> int \<Rightarrow> int \<Rightarrow> int) \<Rightarrow> format \<Rightarrow> format \<Rightarrow> pixel list \<Rightarrow> nat \<Rightarrow> int list \<Rightarrow> nat \<Rightarrow>
   error + (pixel list \<times> int list)" where
  "bitmap_to_sheet_vistor luma fmt unused bmp bmp_pos sheet_data sheet_data_pos =
     (case get_tglp_pixel_data luma bmp bmp_pos fmt of
        Inl e \<Rightarrow> Inl e
      | Inr bytes \<Rightarrow>
          if length bytes > 1
          then Inr (bmp, take sheet_data_pos sheet_data @ bytes
                         @ drop (sheet_data_pos + length bytes) sheet_data)
          else let sheet_data_pos = (if format_size fmt = 4 then sheet_data_pos div 2
                                     else sheet_data_pos)
               in if bytes = [] \<or> sheet_data_pos \<ge> length sheet_data then Inl IndexError
                  else Inr (bmp, sheet_data[sheet_data_pos := (sheet_data ! sheet_data_pos) OR (bytes ! 0)]))"

definition bitmap_to_sheet ::
  "(int \<Rightarrow> int \<Rightarrow> int \<Rightarrow> int) \<Rightarrow> nat \<Rightarrow> nat \<Rightarrow> format \<Rightarrow> nat \<Rightarrow> pixel list \<Rightarrow> error + int list" where
  "bitmap_to_sheet luma sheet_width sheet_height fmt sheet_size bmp =
     (case round_up_pow2 sheet_width of Inl e \<Rightarrow> Inl e | Inr width \<Rightarrow>
     (case round_up_pow2 sheet_height of Inl e \<Rightarrow> Inl e | Inr height \<Rightarrow>
     (case visit_pixels (bitmap_to_sheet_vistor luma fmt) width height fmt bmp
             (replicate sheet_size 0) of
        Inl e \<Rightarrow> Inl e
      | Inr (_, sheet_data) \<Rightarrow> Inr sheet_data)))"

section \<open>ETC1 decoding: \<open>_decompress_etc1\<close>\<close>

datatype byte_order = LittleEndian | BigEndian

text \<open>
  \<open>struct.unpack\<close> of one unsigned integer (\<open>H\<close>, \<open>I\<close> or \<open>Q\<close>) in the byte order
  \<open>'<'\<close> or \<open>'>'\<close>, for a slice that already has the right length.
\<close>

definition unpack_uint :: "byte_order \<Rightarrow> byte list \<Rightarrow> int" where
  "unpack_uint order bs =
     (case order of
        LittleEndian \<Rightarrow> foldr (\<lambda>b acc. uint b + 256 * acc) bs 0
      | BigEndian \<Rightarrow> foldl (\<lambda>acc b. 256 * acc + uint b) 0 bs)"

definition ETC_MODIFIERS :: "(int list) list" where
  "ETC_MODIFIERS = [[2, 8], [5, 17], [9, 29], [13, 42], [18, 60], [24, 80], [33, 106], [47, 183]]"

definition complement :: "int \<Rightarrow> nat \<Rightarrow> int" where
  "complement input bits =
     (if drop_bit (bits - 1) input = 0 then input else input - push_bit bits 1)"

text \<open>
  The two base colours of one block (\<open>color1\<close>, \<open>color2\<close>), from the 64-bit word
  \<open>pixels\<close>: the \<open>if differential: ... else: ...\<close> statement of the block loop.
\<close>

definition etc1_base_colors :: "int \<Rightarrow> int list \<times> int list" where
  "etc1_base_colors pixels =
     (let differential = ((drop_bit 33 pixels) AND 0x01 = 1) in
      if differential then
        (let r = (drop_bit 59 pixels) AND 0x1F;
             g = (drop_bit 51 pixels) AND 0x1F;
             b = (drop_bit 43 pixels) AND 0x1F;
             color1 = [(push_bit 3 r) OR ((drop_bit 2 r) AND 0x07),
                       (push_bit 3 g) OR ((drop_bit 2 g) AND 0x07),
                       (push_bit 3 b) OR ((drop_bit 2 b) AND 0x07)];
             r = r + complement ((drop_bit 56 pixels) AND 0x07) 3;
             g = g + complement ((drop_bit 48 pixels) AND 0x07) 3;
             b = b + complement ((drop_bit 40 pixels) AND 0x07) 3;
             color2 = [(push_bit 3 r) OR ((drop_bit 2 r) AND 0x07),
                       (push_bit 3 g) OR ((drop_bit 2 g) AND 0x07),
                       (push_bit 3 b) OR ((drop_bit 2 b) AND 0x07)]
         in (color1, color2))
      else
        (let color1 = [((drop_bit 60 pixels) AND 0x0F) * 0x11,
                       ((drop_bit 52 pixels) AND 0x0F) * 0x11,
                       ((drop_bit 44 pixels) AND 0x0F) * 0x11];
             color2 = [((drop_bit 56 pixels) AND 0x0F) * 0x11,
                       ((drop_bit 48 pixels) AND 0x0F) * 0x11,
                       ((drop_bit 40 pixels) AND 0x0F) * 0x11]
         in (color1, color2)))"

text \<open>
  The body of the two innermost loops: the pixel \<open>(pixel_x, pixel_y)\<close> of the block at
  \<open>(tile_x, tile_y, block_x, block_y)\<close>, written into \<open>bmp\<close> unless it lies outside the sheet.
\<close>

definition etc1_put_pixel ::
  "nat \<Rightarrow> nat \<Rightarrow> int \<Rightarrow> int \<Rightarrow> (nat \<times> nat \<times> nat \<times> nat) \<Rightarrow> pixel list \<Rightarrow> (nat \<times> nat) \<Rightarrow> pixel list"
  where
  "etc1_put_pixel width height alphas pixels blk bmp p =
     (case blk of (tile_y, tile_x, block_y, block_x) \<Rightarrow>
      case p of (pixel_y, pixel_x) \<Rightarrow>
      (let horizontal = ((drop_bit 32 pixels) AND 0x01 = 1);
           table1 = ETC_MODIFIERS ! nat ((drop_bit 37 pixels) AND 0x07);
           table2 = ETC_MODIFIERS ! nat ((drop_bit 34 pixels) AND 0x07);
           color1 = fst (etc1_base_colors pixels);
           color2 = snd (etc1_base_colors pixels);
           amounts = pixels AND 0xFFFF;
           signs = (drop_bit 16 pixels) AND 0xFFFF;
           x = pixel_x + (block_x * 4) + (tile_x * 8);
           y = pixel_y + (block_y * 4) + (tile_y * 8)
       in if x \<ge> width then bmp
          else if y \<ge> height then bmp
          else
            (let offset = pixel_x * 4 + pixel_y;
                 table = (if horizontal then (if pixel_y < 2 then table1 else table2)
                          else (if pixel_x < 2 then table1 else table2));
                 color = (if horizontal then (if pixel_y < 2 then color1 else color2)
                          else (if pixel_x < 2 then color1 else color2));
                 amount = table ! nat ((drop_bit offset amounts) AND 0x01);
                 sign = (drop_bit offset signs) AND 0x01;
                 amount = (if sign = 1 then amount * (- 1) else amount);
                 red = max (min (color ! 0 + amount) 0xFF) 0;
                 green = max (min (color ! 1 + amount) 0xFF) 0;
                 blue = max (min (color ! 2 + amount) 0xFF) 0;
                 alpha = ((drop_bit (offset * 4) alphas) AND 0x0F) * 0x11;
                 pixel_pos = y * width + x
             in bmp[pixel_pos := (red, green, blue, alpha)])))"

text \<open>
  One iteration of the block loop: read the block at \<open>pos\<close>, decode its 16 pixels. Each
  \<open>struct.unpack('Q', ...)\<close> raises \<open>struct.error\<close> unless it is given 8 bytes.
\<close>

definition etc1_block ::
  "byte_order \<Rightarrow> nat \<Rightarrow> nat \<Rightarrow> bool \<Rightarrow> byte list \<Rightarrow> (nat \<times> pixel list) \<Rightarrow>
   (nat \<times> nat \<times> nat \<times> nat) \<Rightarrow> error + (nat \<times> pixel list)" where
  "etc1_block order width height with_alpha data st blk =
     (case st of (pos, bmp) \<Rightarrow>
      (let block_size = (if with_alpha then 16 else 8);
           data_pos = pos;
           pos = pos + block_size;
           block = slice data data_pos (data_pos + block_size)
       in if with_alpha \<and> length (take 8 block) \<noteq> 8 then Inl StructError
          else
            (let alphas = (if with_alpha then unpack_uint order (take 8 block)
                           else 0xFFFFFFFFFFFFFFFF);
                 block = (if with_alpha then drop 8 block else block)
             in if length block \<noteq> 8 then Inl StructError
                else
                  (let pixels = unpack_uint order block
                   in Inr (pos,
                           foldl (etc1_put_pixel width height alphas pixels blk) bmp
                             [(pixel_y, pixel_x). pixel_y \<leftarrow> [0..<4], pixel_x \<leftarrow> [0..<4]])))))"

fun etc1_blocks ::
  "byte_order \<Rightarrow> nat \<Rightarrow> nat \<Rightarrow> bool \<Rightarrow> byte list \<Rightarrow> (nat \<times> pixel list) \<Rightarrow>
   (nat \<times> nat \<times> nat \<times> nat) list \<Rightarrow> error + (nat \<times> pixel list)" where
  "etc1_blocks order width height with_alpha data st [] = Inr st"
| "etc1_blocks order width height with_alpha data st (blk # blks) =
     (case etc1_block order width height with_alpha data st blk of
        Inl e \<Rightarrow> Inl e
      | Inr st' \<Rightarrow> etc1_blocks order width height with_alpha data st' blks)"

text \<open>
  \<open>int(math.ceil(width / 8.0))\<close> is \<open>(width + 7) div 8\<close>; the number of tiles is then
  rounded up to a power of two.
\<close>

definition decompress_etc1 ::
  "byte_order \<Rightarrow> nat \<Rightarrow> nat \<Rightarrow> bool \<Rightarrow> byte list \<Rightarrow> error + pixel list" where
  "decompress_etc1 order width height with_alpha data =
     (let bmp = replicate (width * height) (0, 0, 0, 0) in
      case round_up_pow2 ((width + 7) div 8) of Inl e \<Rightarrow> Inl e | Inr tile_width \<Rightarrow>
     (case round_up_pow2 ((height + 7) div 8) of Inl e \<Rightarrow> Inl e | Inr tile_height \<Rightarrow>
     (case etc1_blocks order width height with_alpha data (0, bmp)
             [(tile_y, tile_x, block_y, block_x).
                tile_y \<leftarrow> [0..<tile_height], tile_x \<leftarrow> [0..<tile_width],
                block_y \<leftarrow> [0..<2], block_x \<leftarrow> [0..<2]] of
        Inl e \<Rightarrow> Inl e
      | Inr (_, bmp') \<Rightarrow> Inr bmp')))"

section \<open>The container: \<open>Bffnt\<close> and its section parsers\<close>

record cwdh_section_data =
  left :: int
  glyph :: int
  char :: int

record cwdh_section =
  cwdh_start :: int
  cwdh_end :: int
  cwdh_size :: int
  cwdh_data :: "cwdh_section_data list"

text \<open>
  A CMAP section is a dictionary in the source; the keys \<open>'indexOffset'\<close>, \<open>'indexTable'\<close>
  and \<open>'entries'\<close> exist only once \<open>_parse_cmap_data\<close> has stored them. The \<open>'entries'\<close>
  dictionary maps the one-character string \<open>chr(code)\<close> to a glyph index; it is an
  association list on the code points here, in insertion order.
\<close>

record cmap_section =
  cmap_size :: int
  cmap_start :: int
  cmap_end :: int
  cmap_type :: int
  indexOffset :: "int option"
  indexTable :: "int list option"
  entries :: "(int \<times> int) list option"

record font_info_rec =
  fi_height :: int
  fi_width :: int
  fi_ascent :: int
  fi_lineFeed :: int
  fi_alterCharIdx :: int
  fi_defaultLeft :: int
  fi_defaultGlyphWidth :: int
  fi_defaultCharWidth :: int
  fi_fontType :: int
  fi_encoding :: int

record sheet_bitmap =
  sb_width :: int
  sb_height :: int
  sb_data :: "pixel list"

record tglp_rec =
  tglp_size :: int
  glyph_width :: int
  glyph_height :: int
  glyph_baseline :: int
  sheetCount :: int
  sheet_size :: int
  sheet_cols :: int
  sheet_rows :: int
  sheet_width :: int
  sheet_height :: int
  sheet_format :: format
  sheetOffset :: int
  sheets :: "sheet_bitmap list"

text \<open>
  \<open>cwdh_sections\<close> and \<open>cmap_sections\<close> are attributes of the class \<open>Bffnt\<close>, each bound
  to one list object when the class is created. \<open>read\<close> never assigns them on the instance:
  it appends to the list it finds through \<open>self\<close>, which is the list of the class. That list
  is the store \<open>bffnt_class\<close>; every object constructed by \<open>Bffnt(...)\<close> sees the same one.
\<close>

record bffnt_class =
  cwdh_sections :: "cwdh_section list"
  cmap_sections :: "cmap_section list"

text \<open>
  The attributes \<open>read\<close> assigns on the instance. \<open>order\<close> is \<open>None\<close> and \<open>invalid\<close> is
  \<open>False\<close> on a new object. The attributes that have no value before the parser assigns
  them (\<open>version\<close>, \<open>filetype\<close>, \<open>sections\<close>, the three offsets, and the contents of
  \<open>font_info\<close> and \<open>tglp\<close>) start at 0 here: \<open>read\<close> reads none of them before assigning it.
\<close>

record bffnt =
  debug :: bool
  order :: "byte_order option"
  invalid :: bool
  file_size :: int
  version :: int
  filetype :: string
  sections :: int
  font_info :: font_info_rec
  tglp_offset :: int
  cwdh_offset :: int
  cmap_offset :: int
  tglp :: tglp_rec

definition new_Bffnt :: "bool \<Rightarrow> bffnt" where
  "new_Bffnt dbg =
     \<lparr> debug = dbg, order = None, invalid = False, file_size = 0, version = 0, filetype = [],
       sections = 0,
       font_info = \<lparr> fi_height = 0, fi_width = 0, fi_ascent = 0, fi_lineFeed = 0,
                     fi_alterCharIdx = 0, fi_defaultLeft = 0, fi_defaultGlyphWidth = 0,
                     fi_defaultCharWidth = 0, fi_fontType = 0, fi_encoding = 0 \<rparr>,
       tglp_offset = 0, cwdh_offset = 0, cmap_offset = 0,
       tglp = \<lparr> tglp_size = 0, glyph_width = 0, glyph_height = 0, glyph_baseline = 0,
                sheetCount = 0, sheet_size = 0, sheet_cols = 0, sheet_rows = 0, sheet_width = 0,
                sheet_height = 0, sheet_format = RGBA8, sheetOffset = 0, sheets = [] \<rparr> \<rparr>"

definition VERSIONS :: "int list" where
  "VERSIONS = [0x04000000, 0x03000000]"

definition FFNT_HEADER_SIZE :: int where "FFNT_HEADER_SIZE = 0x14"
definition FINF_HEADER_SIZE :: int where "FINF_HEADER_SIZE = 0x20"
definition TGLP_HEADER_SIZE :: int where "TGLP_HEADER_SIZE = 0x20"
definition CWDH_HEADER_SIZE :: int where "CWDH_HEADER_SIZE = 0x10"
definition CMAP_HEADER_SIZE :: int where "CMAP_HEADER_SIZE = 0x14"

text \<open>The magic tags, as bytes: \<open>FFNT\<close>, \<open>FFNU\<close>, \<open>FINF\<close>, \<open>TGLP\<close>, \<open>CWDH\<close>, \<open>CMAP\<close>.\<close>

definition FFNT_HEADER_MAGIC :: "byte list list" where
  "FFNT_HEADER_MAGIC = [[0x46, 0x46, 0x4E, 0x54], [0x46, 0x46, 0x4E, 0x55]]"
definition FINF_HEADER_MAGIC :: "byte list" where "FINF_HEADER_MAGIC = [0x46, 0x49, 0x4E, 0x46]"
definition TGLP_HEADER_MAGIC :: "byte list" where "TGLP_HEADER_MAGIC = [0x54, 0x47, 0x4C, 0x50]"
definition CWDH_HEADER_MAGIC :: "byte list" where "CWDH_HEADER_MAGIC = [0x43, 0x57, 0x44, 0x48]"
definition CMAP_HEADER_MAGIC :: "byte list" where "CMAP_HEADER_MAGIC = [0x43, 0x4D, 0x41, 0x50]"

definition MAPPING_DIRECT :: int where "MAPPING_DIRECT = 0x00"
definition MAPPING_TABLE :: int where "MAPPING_TABLE = 0x01"
definition MAPPING_SCAN :: int where "MAPPING_SCAN = 0x02"

text \<open>
  \<open>struct.unpack(fmt, data)\<close> for a format of fixed-width unsigned fields after a 4-byte
  string: the fields are cut from \<open>data\<close> one after the other; \<open>struct.error\<close> unless \<open>data\<close>
  has exactly the size of the format. \<open>widths\<close> lists the byte widths of the integer fields.
\<close>

fun unpack_fields :: "byte_order \<Rightarrow> nat list \<Rightarrow> byte list \<Rightarrow> int list" where
  "unpack_fields ord [] data = []"
| "unpack_fields ord (w # ws) data =
     unpack_uint ord (take w data) # unpack_fields ord ws (drop w data)"

definition unpack_header :: "byte_order \<Rightarrow> nat list \<Rightarrow> byte list \<Rightarrow> error + (byte list \<times> int list)"
  where
  "unpack_header ord widths data =
     (if length data \<noteq> 4 + sum_list widths then Inl StructError
      else Inr (take 4 data, unpack_fields ord widths (drop 4 data)))"

text \<open>The field widths of the five header formats, after the leading \<open>4s\<close>.\<close>

definition FFNT_HEADER_STRUCT :: "nat list" where "FFNT_HEADER_STRUCT = [2, 2, 4, 4, 4]"
definition FINF_HEADER_STRUCT :: "nat list" where
  "FINF_HEADER_STRUCT = [4, 1, 1, 1, 1, 2, 2, 1, 1, 1, 1, 4, 4, 4]"
definition TGLP_HEADER_STRUCT :: "nat list" where
  "TGLP_HEADER_STRUCT = [4, 1, 1, 1, 1, 4, 2, 2, 2, 2, 2, 2, 4]"
definition CWDH_HEADER_STRUCT :: "nat list" where "CWDH_HEADER_STRUCT = [4, 2, 2, 4]"
definition CMAP_HEADER_STRUCT :: "nat list" where "CMAP_HEADER_STRUCT = [4, 2, 2, 2, 2, 4]"

definition parse_header :: "bffnt \<Rightarrow> byte list \<Rightarrow> error + bffnt" where
  "parse_header self data =
     (if length data < 6 then Inl StructError
      else
        (let bom = unpack_uint BigEndian (slice data 4 6);
             self = (if bom = 0xFFFE then self\<lparr>order := Some LittleEndian\<rparr>
                     else if bom = 0xFEFF then self\<lparr>order := Some BigEndian\<rparr>
                     else self)
         in case order self of
              None \<Rightarrow> Inr (self\<lparr>invalid := True\<rparr>)
            | Some ord \<Rightarrow>
               (case unpack_header ord FFNT_HEADER_STRUCT data of
                  Inl e \<Rightarrow> Inl e
                | Inr (magic, f) \<Rightarrow>
                   (let header_size = f ! 1;
                        self = self\<lparr>version := f ! 2\<rparr>;
                        file_size' = f ! 3;
                        sections' = f ! 4
                    in if magic \<notin> set FFNT_HEADER_MAGIC then Inr (self\<lparr>invalid := True\<rparr>)
                       else
                         (let self = self\<lparr>filetype := (if magic = FFNT_HEADER_MAGIC ! 0
                                                            then ''ffnt'' else ''ffnu'')\<rparr>
                          in if version self \<notin> set VERSIONS then Inr (self\<lparr>invalid := True\<rparr>)
                             else if header_size \<noteq> FFNT_HEADER_SIZE
                               then Inr (self\<lparr>invalid := True\<rparr>)
                             else if file_size' \<noteq> file_size self
                               then Inr (self\<lparr>invalid := True\<rparr>)
                             else Inr (self\<lparr>sections := sections'\<rparr>))))))"

definition parse_finf :: "bffnt \<Rightarrow> byte list \<Rightarrow> error + bffnt" where
  "parse_finf self data =
     (case unpack_header (the (order self)) FINF_HEADER_STRUCT data of
        Inl e \<Rightarrow> Inl e
      | Inr (magic, f) \<Rightarrow>
          if magic \<noteq> FINF_HEADER_MAGIC then Inr (self\<lparr>invalid := True\<rparr>)
          else if f ! 0 \<noteq> FINF_HEADER_SIZE then Inr (self\<lparr>invalid := True\<rparr>)
          else Inr (self\<lparr>
                 font_info := \<lparr> fi_height = f ! 2, fi_width = f ! 3, fi_ascent = f ! 4,
                                 fi_lineFeed = f ! 5, fi_alterCharIdx = f ! 6,
                                 fi_defaultLeft = f ! 7, fi_defaultGlyphWidth = f ! 8,
                                 fi_defaultCharWidth = f ! 9, fi_fontType = f ! 1,
                                 fi_encoding = f ! 10 \<rparr>,
                 tglp_offset := f ! 11, cwdh_offset := f ! 12, cmap_offset := f ! 13\<rparr>))"

definition parse_tglp_header :: "bffnt \<Rightarrow> byte list \<Rightarrow> error + bffnt" where
  "parse_tglp_header self data =
     (case unpack_header (the (order self)) TGLP_HEADER_STRUCT data of
        Inl e \<Rightarrow> Inl e
      | Inr (magic, f) \<Rightarrow>
         (case format_of_value (nat (f ! 7)) of
            Inl e \<Rightarrow> Inl e
          | Inr sheet_pixel_format \<Rightarrow>
              if magic \<noteq> TGLP_HEADER_MAGIC then Inr (self\<lparr>invalid := True\<rparr>)
              else Inr (self\<lparr>tglp :=
                     \<lparr> tglp_size = f ! 0, glyph_width = f ! 1, glyph_height = f ! 2,
                       glyph_baseline = f ! 6, sheetCount = f ! 3, sheet_size = f ! 5,
                       sheet_cols = f ! 8, sheet_rows = f ! 9, sheet_width = f ! 10,
                       sheet_height = f ! 11, sheet_format = sheet_pixel_format,
                       sheetOffset = f ! 12, sheets = [] \<rparr>\<rparr>)))"

text \<open>
  \<open>_parse_cwdh_header\<close> returns \<open>None\<close> after setting \<open>invalid\<close> when the magic is wrong, and
  the next offset after appending the section to the list of the class otherwise.
\<close>

definition parse_cwdh_header ::
  "bffnt_class \<times> bffnt \<Rightarrow> byte list \<Rightarrow> error + ((bffnt_class \<times> bffnt) \<times> int option)" where
  "parse_cwdh_header st data =
     (case st of (cls, self) \<Rightarrow>
     (case unpack_header (the (order self)) CWDH_HEADER_STRUCT data of
        Inl e \<Rightarrow> Inl e
      | Inr (magic, f) \<Rightarrow>
          if magic \<noteq> CWDH_HEADER_MAGIC then Inr ((cls, self\<lparr>invalid := True\<rparr>), None)
          else Inr ((cls\<lparr>cwdh_sections := cwdh_sections cls @
                            [\<lparr> cwdh_start = f ! 1, cwdh_end = f ! 2, cwdh_size = f ! 0,
                               cwdh_data = [] \<rparr>]\<rparr>, self),
                    Some (f ! 3))))"

text \<open>
  The loop of \<open>_parse_cwdh_data\<close>: \<open>count\<close> iterations, each unpacking \<open>'b2B'\<close> from the
  next three bytes (\<open>struct.error\<close> when fewer are left). Only \<open>left\<close> is a signed byte.
\<close>

fun cwdh_triples :: "nat \<Rightarrow> byte list \<Rightarrow> nat \<Rightarrow> error + cwdh_section_data list" where
  "cwdh_triples 0 data position = Inr []"
| "cwdh_triples (Suc n) data position =
     (let s = slice data position (position + 3) in
      if length s \<noteq> 3 then Inl StructError
      else case cwdh_triples n data (position + 3) of
             Inl e \<Rightarrow> Inl e
           | Inr output \<Rightarrow>
               Inr (\<lparr> left = sint (s ! 0), glyph = uint (s ! 1), char = uint (s ! 2) \<rparr> # output))"

definition parse_cwdh_data :: "cwdh_section \<Rightarrow> byte list \<Rightarrow> error + cwdh_section" where
  "parse_cwdh_data info data =
     (let count = cwdh_end info - cwdh_start info + 1 in
      case cwdh_triples (nat count) data 0 of
        Inl e \<Rightarrow> Inl e
      | Inr output \<Rightarrow> Inr (info\<lparr>cwdh_data := output\<rparr>))"

text \<open>
  \<open>_parse_cmap_header\<close>: a wrong magic is printed and nothing else; the section is appended
  all the same. With \<open>debug\<close> on, \<open>MAPPING_METHODS[map_method]\<close> raises \<open>KeyError\<close> for a
  method other than 0, 1, 2.
\<close>

definition parse_cmap_header ::
  "bffnt_class \<times> bffnt \<Rightarrow> byte list \<Rightarrow> error + ((bffnt_class \<times> bffnt) \<times> int)" where
  "parse_cmap_header st data =
     (case st of (cls, self) \<Rightarrow>
     (case unpack_header (the (order self)) CMAP_HEADER_STRUCT data of
        Inl e \<Rightarrow> Inl e
      | Inr (magic, f) \<Rightarrow>
          if debug self \<and> f ! 3 \<notin> {MAPPING_DIRECT, MAPPING_TABLE, MAPPING_SCAN} then Inl KeyError
          else Inr ((cls\<lparr>cmap_sections := cmap_sections cls @
                            [\<lparr> cmap_size = f ! 0, cmap_start = f ! 1, cmap_end = f ! 2,
                               cmap_type = f ! 3, indexOffset = None, indexTable = None,
                               entries = None \<rparr>]\<rparr>, self),
                    f ! 5)))"

fun cmap_table :: "byte_order \<Rightarrow> nat \<Rightarrow> byte list \<Rightarrow> nat \<Rightarrow> error + int list" where
  "cmap_table ord 0 data position = Inr []"
| "cmap_table ord (Suc n) data position =
     (let s = slice data position (position + 2) in
      if length s \<noteq> 2 then Inl StructError
      else case cmap_table ord n data (position + 2) of
             Inl e \<Rightarrow> Inl e
           | Inr output \<Rightarrow> Inr (unpack_uint ord s # output))"

text \<open>\<open>output[key] = value\<close> on a dictionary: an existing key keeps its place.\<close>

fun dict_set :: "int \<Rightarrow> int \<Rightarrow> (int \<times> int) list \<Rightarrow> (int \<times> int) list" where
  "dict_set k v [] = [(k, v)]"
| "dict_set k v ((k', v') # kvs) = (if k' = k then (k, v) # kvs else (k', v') # dict_set k v kvs)"

fun cmap_scan ::
  "byte_order \<Rightarrow> nat \<Rightarrow> byte list \<Rightarrow> nat \<Rightarrow> (int \<times> int) list \<Rightarrow> error + (int \<times> int) list" where
  "cmap_scan ord 0 data position output = Inr output"
| "cmap_scan ord (Suc n) data position output =
     (let s = slice data position (position + 4) in
      if length s \<noteq> 4 then Inl StructError
      else cmap_scan ord n data (position + 4)
             (dict_set (unpack_uint ord (take 2 s)) (unpack_uint ord (drop 2 s)) output))"

definition parse_cmap_data :: "byte_order \<Rightarrow> cmap_section \<Rightarrow> byte list \<Rightarrow> error + cmap_section"
  where
  "parse_cmap_data ord info data =
     (let type = cmap_type info in
      if type = MAPPING_DIRECT then
        (if length (take 2 data) \<noteq> 2 then Inl StructError
         else Inr (info\<lparr>indexOffset := Some (unpack_uint ord (take 2 data))\<rparr>))
      else if type = MAPPING_TABLE then
        (let count = cmap_end info - cmap_start info + 1 in
         case cmap_table ord (nat count) data 0 of
           Inl e \<Rightarrow> Inl e
         | Inr output \<Rightarrow> Inr (info\<lparr>indexTable := Some output\<rparr>))
      else if type = MAPPING_SCAN then
        (if length (slice data 0 2) \<noteq> 2 then Inl StructError
         else
           (let count = unpack_uint ord (slice data 0 2) in
            case cmap_scan ord (nat count) data 2 [] of
              Inl e \<Rightarrow> Inl e
            | Inr output \<Rightarrow> Inr (info\<lparr>entries := Some output\<rparr>)))
      else Inr info)"

text \<open>
  \<open>_parse_tglp_data\<close>: one bitmap per sheet, decoded from consecutive slices of the file.
\<close>

fun tglp_sheets :: "bffnt \<Rightarrow> byte list \<Rightarrow> nat \<Rightarrow> int \<Rightarrow> sheet_bitmap list \<Rightarrow> error + sheet_bitmap list"
  where
  "tglp_sheets self data 0 position acc = Inr acc"
| "tglp_sheets self data (Suc n) position acc =
     (let t = tglp self;
          sheet = py_slice data position (position + sheet_size t);
          fmt = sheet_format t
      in case (if fmt = ETC1 \<or> fmt = ETC1A4
               then decompress_etc1 (the (order self)) (nat (sheet_width t)) (nat (sheet_height t))
                      (fmt = ETC1A4) sheet
               else sheet_to_bitmap (nat (sheet_width t)) (nat (sheet_height t)) fmt sheet) of
           Inl e \<Rightarrow> Inl e
         | Inr bmp_data \<Rightarrow>
             tglp_sheets self data n (position + sheet_size t)
               (acc @ [\<lparr> sb_width = sheet_width t, sb_height = sheet_height t,
                          sb_data = bmp_data \<rparr>]))"

definition parse_tglp_data :: "bffnt \<Rightarrow> byte list \<Rightarrow> error + bffnt" where
  "parse_tglp_data self data =
     (case tglp_sheets self data (nat (sheetCount (tglp self))) (sheetOffset (tglp self)) [] of
        Inl e \<Rightarrow> Inl e
      | Inr shs \<Rightarrow> Inr (self\<lparr>tglp := (tglp self)\<lparr>sheets := shs\<rparr>\<rparr>))"

text \<open>
  \<open>Bffnt.read\<close>. A \<open>return\<close> inside one of the two \<open>while\<close> loops leaves \<open>read\<close> itself, so
  a loop hands back either \<open>Return\<close> (the method is over) or \<open>Next\<close> (go on after the loop).
  Nothing bounds the number of iterations of the loops, so they are partial functions:
  \<open>None\<close> is a run that never returns.
\<close>

datatype 'a flow = Return 'a | Next 'a

partial_function (option) cwdh_loop ::
  "byte list \<Rightarrow> bffnt_class \<times> bffnt \<Rightarrow> int \<Rightarrow> (error + (bffnt_class \<times> bffnt) flow) option" where
  "cwdh_loop data st cwdh =
     (if cwdh > 0 then
        (let position = cwdh - 8 in
         case parse_cwdh_header st (py_slice data position (position + CWDH_HEADER_SIZE)) of
           Inl e \<Rightarrow> Some (Inl e)
         | Inr (st1, None) \<Rightarrow> Some (Inr (Return (fst st1, (snd st1)\<lparr>invalid := True\<rparr>)))
         | Inr (st1, Some cwdh') \<Rightarrow>
            (let position = position + CWDH_HEADER_SIZE;
                 info = last (cwdh_sections (fst st1))
             in case parse_cwdh_data info
                       (py_slice data position (position + cwdh_size info - CWDH_HEADER_SIZE)) of
                  Inl e \<Rightarrow> Some (Inl e)
                | Inr info' \<Rightarrow>
                    cwdh_loop data
                      ((fst st1)\<lparr>cwdh_sections := butlast (cwdh_sections (fst st1)) @ [info']\<rparr>,
                       snd st1)
                      cwdh'))
      else Some (Inr (Next st)))"

declare cwdh_loop.simps [code]

partial_function (option) cmap_loop ::
  "byte list \<Rightarrow> bffnt_class \<times> bffnt \<Rightarrow> int \<Rightarrow> (error + (bffnt_class \<times> bffnt) flow) option" where
  "cmap_loop data st cmap =
     (if cmap > 0 then
        (let position = cmap - 8 in
         case parse_cmap_header st (py_slice data position (position + CMAP_HEADER_SIZE)) of
           Inl e \<Rightarrow> Some (Inl e)
         | Inr (st1, cmap') \<Rightarrow>
             if invalid (snd st1) then Some (Inr (Return st1))
             else
               (let position = position + CMAP_HEADER_SIZE;
                    info = last (cmap_sections (fst st1))
                in case parse_cmap_data (the (order (snd st1))) info
                          (py_slice data position (position + cmap_size info - CMAP_HEADER_SIZE)) of
                     Inl e \<Rightarrow> Some (Inl e)
                   | Inr info' \<Rightarrow>
                       cmap_loop data
                         ((fst st1)\<lparr>cmap_sections := butlast (cmap_sections (fst st1)) @ [info']\<rparr>,
                          snd st1)
                         cmap'))
      else Some (Inr (Next st)))"

declare cmap_loop.simps [code]

definition read :: "bffnt_class \<Rightarrow> bffnt \<Rightarrow> byte list \<Rightarrow> (error + (bffnt_class \<times> bffnt)) option"
  where
  "read cls self data =
     (let self = self\<lparr>file_size := int (length data)\<rparr> in
      case parse_header self (py_slice data 0 FFNT_HEADER_SIZE) of
        Inl e \<Rightarrow> Some (Inl e)
      | Inr self \<Rightarrow>
     (let position = FFNT_HEADER_SIZE in
      if invalid self then Some (Inr (cls, self))
      else
     (case parse_finf self (py_slice data position (position + FINF_HEADER_SIZE)) of
        Inl e \<Rightarrow> Some (Inl e)
      | Inr self \<Rightarrow>
      if invalid self then Some (Inr (cls, self))
      else
     (let position = tglp_offset self - 8 in
      case parse_tglp_header self (py_slice data position (position + TGLP_HEADER_SIZE)) of
        Inl e \<Rightarrow> Some (Inl e)
      | Inr self \<Rightarrow>
      if invalid self then Some (Inr (cls, self))
      else
     (case cwdh_loop data (cls, self) (cwdh_offset self) of
        None \<Rightarrow> None
      | Some (Inl e) \<Rightarrow> Some (Inl e)
      | Some (Inr (Return st)) \<Rightarrow> Some (Inr st)
      | Some (Inr (Next st)) \<Rightarrow>
     (case cmap_loop data st (cmap_offset (snd st)) of
        None \<Rightarrow> None
      | Some (Inl e) \<Rightarrow> Some (Inl e)
      | Some (Inr (Return st)) \<Rightarrow> Some (Inr st)
      | Some (Inr (Next st)) \<Rightarrow>
     (case parse_tglp_data (snd st) data of
        Inl e \<Rightarrow> Some (Inl e)
      | Inr self \<Rightarrow> Some (Inr (fst st, self)))))))))"

section \<open>Writing the width and map sections: the two section loops of \<open>Bffnt.save\<close>\<close>

text \<open>
  The output file: its bytes and the position of the next write. Writing past the end
  fills the gap with zero bytes, as a seek beyond the end followed by a write does.
\<close>

record out_file =
  fbytes :: "byte list"
  fpos :: nat

definition file_write :: "out_file \<Rightarrow> byte list \<Rightarrow> out_file" where
  "file_write f bs =
     (let old = fbytes f @ replicate (fpos f - length (fbytes f)) 0
      in \<lparr> fbytes = take (fpos f) old @ bs @ drop (fpos f + length bs) old,
           fpos = fpos f + length bs \<rparr>)"

definition file_seek :: "out_file \<Rightarrow> nat \<Rightarrow> out_file" where
  "file_seek f p = f\<lparr>fpos := p\<rparr>"

text \<open>
  \<open>struct.pack\<close> of one unsigned integer of \<open>w\<close> bytes (\<open>H\<close>: 2, \<open>I\<close>: 4) and of one signed
  byte (\<open>b\<close>): \<open>struct.error\<close> when the value does not fit.
\<close>

definition pack_uint :: "byte_order \<Rightarrow> nat \<Rightarrow> int \<Rightarrow> error + byte list" where
  "pack_uint ord w v =
     (if 0 \<le> v \<and> v < 2 ^ (8 * w)
      then Inr (let le = map (\<lambda>i. word_of_int (v div 2 ^ (8 * i))) [0..<w]
                in case ord of LittleEndian \<Rightarrow> le | BigEndian \<Rightarrow> rev le)
      else Inl StructError)"

definition pack_b :: "int \<Rightarrow> error + byte list" where
  "pack_b v = (if - 128 \<le> v \<and> v \<le> 127 then Inr [word_of_int v] else Inl StructError)"

text \<open>
  The state the two loops of \<open>save\<close> thread through their iterations: the file, \<open>position\<close>,
  \<open>section_count\<close> and the position of the previous section's next-offset field.
\<close>

record save_state =
  s_file :: out_file
  s_position :: nat
  s_section_count :: nat
  s_prev_offset_pos :: nat

text \<open>Patch a 32-bit field at \<open>at\<close> and come back to \<open>position\<close>.\<close>

definition patch_u32 :: "byte_order \<Rightarrow> out_file \<Rightarrow> nat \<Rightarrow> int \<Rightarrow> nat \<Rightarrow> error + out_file" where
  "patch_u32 ord f at v pos =
     (case pack_uint ord 4 v of
        Inl e \<Rightarrow> Inl e
      | Inr bs \<Rightarrow> Inr (file_seek (file_write (file_seek f at) bs) pos))"

text \<open>
  The inner loop of the CWDH writer: \<open>for code in range(cwdh.start, cwdh.end + 1)\<close>, with
  \<open>widths = cwdh.data[code]\<close> (the index is \<open>code\<close>, not \<open>code - start\<close>).
\<close>

fun write_widths ::
  "cwdh_section_data list \<Rightarrow> int list \<Rightarrow> out_file \<times> nat \<Rightarrow> error + (out_file \<times> nat)" where
  "write_widths widths_data [] fp = Inr fp"
| "write_widths widths_data (code # codes) fp =
     (if code < - int (length widths_data) \<or> int (length widths_data) \<le> code then Inl IndexError
      else
        (let widths = widths_data ! nat (if code < 0 then int (length widths_data) + code else code)
         in case pack_b (left widths) of Inl e \<Rightarrow> Inl e | Inr b1 \<Rightarrow>
           (case pack_b (glyph widths) of Inl e \<Rightarrow> Inl e | Inr b2 \<Rightarrow>
           (case pack_b (char widths) of Inl e \<Rightarrow> Inl e | Inr b3 \<Rightarrow>
              write_widths widths_data codes (file_write (fst fp) (b1 @ b2 @ b3), snd fp + 3)))))"

text \<open>
  \<open>padding = position % 4\<close>, then \<open>padding\<close> zero bytes, then \<open>position += padding\<close>.
\<close>

definition write_padding :: "out_file \<times> nat \<Rightarrow> out_file \<times> nat" where
  "write_padding fp =
     (let padding = snd fp mod 4
      in (file_write (fst fp) (replicate padding 0), snd fp + padding))"

definition save_cwdh_section :: "byte_order \<Rightarrow> save_state \<Rightarrow> cwdh_section \<Rightarrow> error + save_state"
  where
  "save_cwdh_section ord s cwdh =
     (let section_count' = s_section_count s + 1 in
      case (if s_prev_offset_pos s > 0
            then patch_u32 ord (s_file s) (s_prev_offset_pos s) (int (s_position s) + 8) (s_position s)
            else Inr (s_file s)) of
        Inl e \<Rightarrow> Inl e
      | Inr f \<Rightarrow>
     (let size_pos = s_position s + 0x04;
          prev' = s_position s + 0x0C;
          start_pos = s_position s
      in case pack_uint ord 4 0 of Inl e \<Rightarrow> Inl e | Inr zero32 \<Rightarrow>
        (case pack_uint ord 2 (cwdh_start cwdh) of Inl e \<Rightarrow> Inl e | Inr st \<Rightarrow>
        (case pack_uint ord 2 (cwdh_end cwdh) of Inl e \<Rightarrow> Inl e | Inr en \<Rightarrow>
        (let f = file_write f (CWDH_HEADER_MAGIC @ zero32 @ st @ en @ zero32);
             pos = s_position s + nat CWDH_HEADER_SIZE
         in case write_widths (cwdh_data cwdh) [cwdh_start cwdh..cwdh_end cwdh] (f, pos) of
              Inl e \<Rightarrow> Inl e
            | Inr fp \<Rightarrow>
               (case write_padding fp of (f, pos) \<Rightarrow>
                 (case patch_u32 ord f size_pos (int pos - int start_pos) pos of
                    Inl e \<Rightarrow> Inl e
                  | Inr f \<Rightarrow> Inr \<lparr> s_file = f, s_position = pos, s_section_count = section_count',
                                   s_prev_offset_pos = prev' \<rparr>)))))))"

fun save_cwdh_sections :: "byte_order \<Rightarrow> save_state \<Rightarrow> cwdh_section list \<Rightarrow> error + save_state"
  where
  "save_cwdh_sections ord s [] = Inr s"
| "save_cwdh_sections ord s (cwdh # rest) =
     (case save_cwdh_section ord s cwdh of
        Inl e \<Rightarrow> Inl e
      | Inr s' \<Rightarrow> save_cwdh_sections ord s' rest)"

text \<open>The payload writers of the CMAP loop, one per mapping method.\<close>

fun write_index_table :: "byte_order \<Rightarrow> int list \<Rightarrow> out_file \<times> nat \<Rightarrow> error + (out_file \<times> nat)"
  where
  "write_index_table ord [] fp = Inr fp"
| "write_index_table ord (index # rest) fp =
     (case pack_uint ord 2 index of
        Inl e \<Rightarrow> Inl e
      | Inr bs \<Rightarrow> write_index_table ord rest (file_write (fst fp) bs, snd fp + 2))"

fun write_scan_entries ::
  "byte_order \<Rightarrow> (int \<times> int) list \<Rightarrow> out_file \<times> nat \<Rightarrow> error + (out_file \<times> nat)" where
  "write_scan_entries ord [] fp = Inr fp"
| "write_scan_entries ord ((code, index) # rest) fp =
     (case pack_uint ord 2 code of Inl e \<Rightarrow> Inl e | Inr b1 \<Rightarrow>
     (case pack_uint ord 2 index of Inl e \<Rightarrow> Inl e | Inr b2 \<Rightarrow>
        write_scan_entries ord rest (file_write (fst fp) (b1 @ b2), snd fp + 4)))"

definition save_cmap_section :: "byte_order \<Rightarrow> save_state \<Rightarrow> cmap_section \<Rightarrow> error + save_state"
  where
  "save_cmap_section ord s cmap =
     (let section_count' = s_section_count s + 1 in
      case (if s_prev_offset_pos s > 0
            then patch_u32 ord (s_file s) (s_prev_offset_pos s) (int (s_position s) + 8) (s_position s)
            else Inr (s_file s)) of
        Inl e \<Rightarrow> Inl e
      | Inr f \<Rightarrow>
     (let size_pos = s_position s + 0x04;
          prev' = s_position s + 0x10;
          start_pos = s_position s
      in case pack_uint ord 4 0 of Inl e \<Rightarrow> Inl e | Inr zero32 \<Rightarrow>
        (case pack_uint ord 2 0 of Inl e \<Rightarrow> Inl e | Inr zero16 \<Rightarrow>
        (case pack_uint ord 2 (cmap_start cmap) of Inl e \<Rightarrow> Inl e | Inr st \<Rightarrow>
        (case pack_uint ord 2 (cmap_end cmap) of Inl e \<Rightarrow> Inl e | Inr en \<Rightarrow>
        (case pack_uint ord 2 (cmap_type cmap) of Inl e \<Rightarrow> Inl e | Inr ty \<Rightarrow>
        (let f = file_write f (CMAP_HEADER_MAGIC @ zero32 @ st @ en @ ty @ zero16 @ zero32);
             pos = s_position s + nat CMAP_HEADER_SIZE
         in case entries cmap of None \<Rightarrow> Inl KeyError | Some ents \<Rightarrow>
           (case pack_uint ord 2 (int (length ents)) of Inl e \<Rightarrow> Inl e | Inr cnt \<Rightarrow>
           (let f = file_write f cnt;
                pos = pos + 2
            in case (if cmap_type cmap = MAPPING_DIRECT then
                       (case indexOffset cmap of None \<Rightarrow> Inl KeyError | Some io \<Rightarrow>
                         (case pack_uint ord 2 io of Inl e \<Rightarrow> Inl e
                          | Inr bs \<Rightarrow> Inr (file_write f bs, pos + 2)))
                     else if cmap_type cmap = MAPPING_TABLE then
                       (case indexTable cmap of None \<Rightarrow> Inl KeyError
                        | Some tbl \<Rightarrow> write_index_table ord tbl (f, pos))
                     else if cmap_type cmap = MAPPING_SCAN then
                       write_scan_entries ord (sort_key fst ents) (f, pos)
                     else Inr (f, pos)) of
                 Inl e \<Rightarrow> Inl e
               | Inr fp \<Rightarrow>
                  (case write_padding fp of (f, pos) \<Rightarrow>
                    (case patch_u32 ord f size_pos (int pos - int start_pos) pos of
                       Inl e \<Rightarrow> Inl e
                     | Inr f \<Rightarrow> Inr \<lparr> s_file = f, s_position = pos, s_section_count = section_count',
                                      s_prev_offset_pos = prev' \<rparr>)))))))))))"

fun save_cmap_sections :: "byte_order \<Rightarrow> save_state \<Rightarrow> cmap_section list \<Rightarrow> error + save_state"
  where
  "save_cmap_sections ord s [] = Inr s"
| "save_cmap_sections ord s (cmap # rest) =
     (case save_cmap_section ord s cmap of
        Inl e \<Rightarrow> Inl e
      | Inr s' \<Rightarrow> save_cmap_sections ord s' rest)"

section \<open>Specification-side notions used to state the claims\<close>

text \<open>
  The round trip of one pixel through one format: encode \<open>bmp[index]\<close>, turn the fragment
  into bytes the way \<open>save\<close> does, and decode at the same index from a buffer in which the
  fragment starts at byte \<open>index * format_size // 8\<close>, the byte position \<open>visit_pixels\<close>
  computes for a pixel.
\<close>

definition encode_decode ::
  "(int \<Rightarrow> int \<Rightarrow> int \<Rightarrow> int) \<Rightarrow> format \<Rightarrow> pixel list \<Rightarrow> nat \<Rightarrow> error + pixel" where
  "encode_decode luma fmt bmp index =
     (case get_tglp_pixel_data luma bmp index fmt of
        Inl e \<Rightarrow> Inl e
      | Inr frag \<Rightarrow>
          (case pack_B frag of
             Inl e \<Rightarrow> Inl e
           | Inr bs \<Rightarrow> get_pixel_data fmt (replicate ((index * format_size fmt) div 8) 0 @ bs) index))"

text \<open>
  The words of the ETC1 description, written arithmetically: a bit field of a block, the
  sign extension of a 3-bit two's-complement value, and the expansion of a 5-bit value
  \<open>v\<close> (\<open>0 \<le> v < 32\<close>) to 8 bits: the five bits of \<open>v\<close> followed by its top three bits,
  which are \<open>v div 4\<close>.
\<close>

definition bit_field :: "int \<Rightarrow> nat \<Rightarrow> nat \<Rightarrow> int" where
  "bit_field pixels offset n = (pixels div 2 ^ offset) mod 2 ^ n"

definition sign_extend3 :: "int \<Rightarrow> int" where
  "sign_extend3 d = (if d \<ge> 4 then d - 8 else d)"

definition replicate_top3 :: "int \<Rightarrow> int" where
  "replicate_top3 v = 8 * v + v div 4"

text \<open>
  The tile traversal in closed form. \<open>swizzle u v\<close> is the place, inside its 8 by 8 tile, of
  the pixel at column \<open>u\<close> and row \<open>v\<close> of the tile: the bits of \<open>u\<close> and \<open>v\<close> interleaved.
  \<open>offset_of_pixel\<close> is the storage offset, counted in pixels, of the pixel \<open>(px, py)\<close> of a
  sheet; \<open>pixel_of_offset\<close> goes back from an offset to the pixel.
\<close>

definition swizzle :: "nat \<Rightarrow> nat \<Rightarrow> nat" where
  "swizzle u v =
     (u mod 2) + (v mod 2) * 2 + (u div 2 mod 2) * 4 + (v div 2 mod 2) * 8
     + (u div 4 mod 2) * 16 + (v div 4 mod 2) * 32"

definition unswizzle_x :: "nat \<Rightarrow> nat" where
  "unswizzle_x q = q mod 2 + (q div 4 mod 2) * 2 + (q div 16 mod 2) * 4"

definition unswizzle_y :: "nat \<Rightarrow> nat" where
  "unswizzle_y q = q div 2 mod 2 + (q div 8 mod 2) * 2 + (q div 32 mod 2) * 4"

definition offset_of_pixel :: "nat \<Rightarrow> nat \<Rightarrow> nat \<Rightarrow> nat" where
  "offset_of_pixel width px py =
     swizzle (px mod 8) (py mod 8) + (px div 8) * 64 + (py div 8) * width * 8"

definition pixel_of_offset :: "nat \<Rightarrow> nat \<Rightarrow> nat \<times> nat" where
  "pixel_of_offset width p =
     (unswizzle_x (p mod 64) + (p div 64 mod (width div 8)) * 8,
      unswizzle_y (p mod 64) + (p div 64 div (width div 8)) * 8)"

text \<open>
  Calling the callback at every pair of a list, in order, with no guard: what the loop body
  of \<open>visit_pixels\<close> does when no pixel is skipped.
\<close>

fun call_at_each ::
  "(format \<Rightarrow> 'b list \<Rightarrow> nat \<Rightarrow> 'd list \<Rightarrow> nat \<Rightarrow> error + ('b list \<times> 'd list)) \<Rightarrow> format \<Rightarrow>
   (nat \<times> nat) list \<Rightarrow> 'b list \<Rightarrow> 'd list \<Rightarrow> error + ('b list \<times> 'd list)" where
  "call_at_each vistor fmt [] bmp sheet_data = Inr (bmp, sheet_data)"
| "call_at_each vistor fmt ((bmp_pos, sheet_data_pos) # rest) bmp sheet_data =
     (case vistor fmt bmp bmp_pos sheet_data sheet_data_pos of
        Inl e \<Rightarrow> Inl e
      | Inr (bmp', sheet_data') \<Rightarrow> call_at_each vistor fmt rest bmp' sheet_data')"

section \<open>Small containers\<close>

text \<open>
  A little-endian container of 128 bytes: the header (20 bytes), FINF at 20, TGLP at 52 with
  no sheet, one CWDH section at 84 for the glyph interval \<open>[0, 0]\<close> with the triple
  \<open>(0, 8, 8)\<close>, and one CMAP section at 104 mapping \<open>'A'\<close> directly. Both chains end with a
  next offset of 0.
\<close>

definition container_ok :: "byte list" where
  "container_ok =
     [0x46, 0x46, 0x4E, 0x54, 0xFF, 0xFE, 0x14, 0x00, 0x00, 0x00, 0x00, 0x03, 0x80, 0x00, 0x00, 0x00,
     0x04, 0x00, 0x00, 0x00, 0x46, 0x49, 0x4E, 0x46, 0x20, 0x00, 0x00, 0x00, 0x01, 0x0A, 0x08, 0x08,
     0x0A, 0x00, 0x00, 0x00, 0x00, 0x08, 0x08, 0x01, 0x3C, 0x00, 0x00, 0x00, 0x5C, 0x00, 0x00, 0x00,
     0x70, 0x00, 0x00, 0x00, 0x54, 0x47, 0x4C, 0x50, 0x20, 0x00, 0x00, 0x00, 0x08, 0x08, 0x00, 0x08,
     0x00, 0x00, 0x00, 0x00, 0x08, 0x00, 0x00, 0x00, 0x01, 0x00, 0x01, 0x00, 0x08, 0x00, 0x08, 0x00,
     0x54, 0x00, 0x00, 0x00, 0x43, 0x57, 0x44, 0x48, 0x14, 0x00, 0x00, 0x00, 0x00, 0x00, 0x00, 0x00,
     0x00, 0x00, 0x00, 0x00, 0x00, 0x08, 0x08, 0x00, 0x43, 0x4D, 0x41, 0x50, 0x18, 0x00, 0x00, 0x00,
     0x41, 0x00, 0x41, 0x00, 0x00, 0x00, 0x00, 0x00, 0x00, 0x00, 0x00, 0x00, 0x00, 0x00, 0x00, 0x00]"

text \<open>The same container with the magic of the CMAP section changed to \<open>XMAP\<close>.\<close>

definition container_bad_cmap_magic :: "byte list" where
  "container_bad_cmap_magic =
     [0x46, 0x46, 0x4E, 0x54, 0xFF, 0xFE, 0x14, 0x00, 0x00, 0x00, 0x00, 0x03, 0x80, 0x00, 0x00, 0x00,
     0x04, 0x00, 0x00, 0x00, 0x46, 0x49, 0x4E, 0x46, 0x20, 0x00, 0x00, 0x00, 0x01, 0x0A, 0x08, 0x08,
     0x0A, 0x00, 0x00, 0x00, 0x00, 0x08, 0x08, 0x01, 0x3C, 0x00, 0x00, 0x00, 0x5C, 0x00, 0x00, 0x00,
     0x70, 0x00, 0x00, 0x00, 0x54, 0x47, 0x4C, 0x50, 0x20, 0x00, 0x00, 0x00, 0x08, 0x08, 0x00, 0x08,
     0x00, 0x00, 0x00, 0x00, 0x08, 0x00, 0x00, 0x00, 0x01, 0x00, 0x01, 0x00, 0x08, 0x00, 0x08, 0x00,
     0x54, 0x00, 0x00, 0x00, 0x43, 0x57, 0x44, 0x48, 0x14, 0x00, 0x00, 0x00, 0x00, 0x00, 0x00, 0x00,
     0x00, 0x00, 0x00, 0x00, 0x00, 0x08, 0x08, 0x00, 0x58, 0x4D, 0x41, 0x50, 0x18, 0x00, 0x00, 0x00,
     0x41, 0x00, 0x41, 0x00, 0x00, 0x00, 0x00, 0x00, 0x00, 0x00, 0x00, 0x00, 0x00, 0x00, 0x00, 0x00]"

text \<open>
  The same container, except that the next offset of the CWDH section is 92, the offset of
  that section itself.
\<close>

definition container_cwdh_cycle :: "byte list" where
  "container_cwdh_cycle =
     [0x46, 0x46, 0x4E, 0x54, 0xFF, 0xFE, 0x14, 0x00, 0x00, 0x00, 0x00, 0x03, 0x80, 0x00, 0x00, 0x00,
     0x04, 0x00, 0x00, 0x00, 0x46, 0x49, 0x4E, 0x46, 0x20, 0x00, 0x00, 0x00, 0x01, 0x0A, 0x08, 0x08,
     0x0A, 0x00, 0x00, 0x00, 0x00, 0x08, 0x08, 0x01, 0x3C, 0x00, 0x00, 0x00, 0x5C, 0x00, 0x00, 0x00,
     0x70, 0x00, 0x00, 0x00, 0x54, 0x47, 0x4C, 0x50, 0x20, 0x00, 0x00, 0x00, 0x08, 0x08, 0x00, 0x08,
     0x00, 0x00, 0x00, 0x00, 0x08, 0x00, 0x00, 0x00, 0x01, 0x00, 0x01, 0x00, 0x08, 0x00, 0x08, 0x00,
     0x54, 0x00, 0x00, 0x00, 0x43, 0x57, 0x44, 0x48, 0x14, 0x00, 0x00, 0x00, 0x00, 0x00, 0x00, 0x00,
     0x5C, 0x00, 0x00, 0x00, 0x00, 0x08, 0x08, 0x00, 0x43, 0x4D, 0x41, 0x50, 0x18, 0x00, 0x00, 0x00,
     0x41, 0x00, 0x41, 0x00, 0x00, 0x00, 0x00, 0x00, 0x00, 0x00, 0x00, 0x00, 0x00, 0x00, 0x00, 0x00]"

text \<open>
  A container of 172 bytes with two records in each chain: CWDH sections at 84 (interval
  \<open>[0, 0]\<close>, next offset 112) and at 104 (interval \<open>[1, 1]\<close>, next offset 0), CMAP sections
  at 124 (\<open>'A'\<close>, next offset 156) and at 148 (\<open>'B'\<close>, next offset 0).
\<close>

definition container_two_ranges :: "byte list" where
  "container_two_ranges =
     [0x46, 0x46, 0x4E, 0x54, 0xFF, 0xFE, 0x14, 0x00, 0x00, 0x00, 0x00, 0x03, 0xAC, 0x00, 0x00, 0x00,
     0x06, 0x00, 0x00, 0x00, 0x46, 0x49, 0x4E, 0x46, 0x20, 0x00, 0x00, 0x00, 0x01, 0x0A, 0x08, 0x08,
     0x0A, 0x00, 0x00, 0x00, 0x00, 0x08, 0x08, 0x01, 0x3C, 0x00, 0x00, 0x00, 0x5C, 0x00, 0x00, 0x00,
     0x84, 0x00, 0x00, 0x00, 0x54, 0x47, 0x4C, 0x50, 0x20, 0x00, 0x00, 0x00, 0x08, 0x08, 0x00, 0x08,
     0x00, 0x00, 0x00, 0x00, 0x08, 0x00, 0x00, 0x00, 0x01, 0x00, 0x01, 0x00, 0x08, 0x00, 0x08, 0x00,
     0x54, 0x00, 0x00, 0x00, 0x43, 0x57, 0x44, 0x48, 0x14, 0x00, 0x00, 0x00, 0x00, 0x00, 0x00, 0x00,
     0x70, 0x00, 0x00, 0x00, 0x00, 0x08, 0x08, 0x00, 0x43, 0x57, 0x44, 0x48, 0x14, 0x00, 0x00, 0x00,
     0x01, 0x00, 0x01, 0x00, 0x00, 0x00, 0x00, 0x00, 0x01, 0x07, 0x09, 0x00, 0x43, 0x4D, 0x41, 0x50,
     0x18, 0x00, 0x00, 0x00, 0x41, 0x00, 0x41, 0x00, 0x00, 0x00, 0x00, 0x00, 0x9C, 0x00, 0x00, 0x00,
     0x00, 0x00, 0x00, 0x00, 0x43, 0x4D, 0x41, 0x50, 0x18, 0x00, 0x00, 0x00, 0x42, 0x00, 0x42, 0x00,
     0x00, 0x00, 0x00, 0x00, 0x00, 0x00, 0x00, 0x00, 0x01, 0x00, 0x00, 0x00]"

text \<open>
  \<open>container_ok\<close>, except that the next offset of the CMAP section is 112, the offset of
  that section itself.
\<close>

definition container_cmap_cycle :: "byte list" where
  "container_cmap_cycle =
     [0x46, 0x46, 0x4E, 0x54, 0xFF, 0xFE, 0x14, 0x00, 0x00, 0x00, 0x00, 0x03, 0x80, 0x00, 0x00, 0x00,
     0x04, 0x00, 0x00, 0x00, 0x46, 0x49, 0x4E, 0x46, 0x20, 0x00, 0x00, 0x00, 0x01, 0x0A, 0x08, 0x08,
     0x0A, 0x00, 0x00, 0x00, 0x00, 0x08, 0x08, 0x01, 0x3C, 0x00, 0x00, 0x00, 0x5C, 0x00, 0x00, 0x00,
     0x70, 0x00, 0x00, 0x00, 0x54, 0x47, 0x4C, 0x50, 0x20, 0x00, 0x00, 0x00, 0x08, 0x08, 0x00, 0x08,
     0x00, 0x00, 0x00, 0x00, 0x08, 0x00, 0x00, 0x00, 0x01, 0x00, 0x01, 0x00, 0x08, 0x00, 0x08, 0x00,
     0x54, 0x00, 0x00, 0x00, 0x43, 0x57, 0x44, 0x48, 0x14, 0x00, 0x00, 0x00, 0x00, 0x00, 0x00, 0x00,
     0x00, 0x00, 0x00, 0x00, 0x00, 0x08, 0x08, 0x00, 0x43, 0x4D, 0x41, 0x50, 0x18, 0x00, 0x00, 0x00,
     0x41, 0x00, 0x41, 0x00, 0x00, 0x00, 0x00, 0x00, 0x70, 0x00, 0x00, 0x00, 0x00, 0x00, 0x00, 0x00]"

definition empty_class :: bffnt_class where
  "empty_class = \<lparr> cwdh_sections = [], cmap_sections = [] \<rparr>"

text \<open>The state a loop of \<open>read\<close> hands back, whichever way it ended.\<close>

definition flow_state :: "'a flow \<Rightarrow> 'a" where
  "flow_state fl = (case fl of Return s \<Rightarrow> s | Next s \<Rightarrow> s)"

section \<open>The chains as the file holds them\<close>

text \<open>
  The walk reaches a record at the offset \<open>c\<close> of the field that follows its magic and size;
  the header of the record starts 8 bytes before \<open>c\<close>. A CWDH header is
  \<open>{magic, size: u32, start: u16, end: u16, nextOffset: u32}\<close>, 16 bytes, and a CMAP header
  \<open>{magic, size: u32, start: u16, end: u16, method: u16, unknown: u16, nextOffset: u32}\<close>,
  20 bytes: the next offset is the last four bytes of the header, read in the byte order of
  the file. There is none when the file does not hold a whole header there.
\<close>

definition cwdh_next_offset :: "byte_order \<Rightarrow> byte list \<Rightarrow> int \<Rightarrow> int option" where
  "cwdh_next_offset ord data c =
     (let header = py_slice data (c - 8) (c - 8 + 16)
      in if length header = 16 then Some (unpack_uint ord (drop 12 header)) else None)"

definition cmap_next_offset :: "byte_order \<Rightarrow> byte list \<Rightarrow> int \<Rightarrow> int option" where
  "cmap_next_offset ord data c =
     (let header = py_slice data (c - 8) (c - 8 + 20)
      in if length header = 20 then Some (unpack_uint ord (drop 16 header)) else None)"

text \<open>
  Following the next offsets from \<open>c\<close> reaches an offset that is not above 0 after at most
  \<open>k\<close> records.
\<close>

fun reaches_zero :: "(int \<Rightarrow> int option) \<Rightarrow> nat \<Rightarrow> int \<Rightarrow> bool" where
  "reaches_zero nxt 0 c = (c \<le> 0)"
| "reaches_zero nxt (Suc k) c =
     (c \<le> 0 \<or> (case nxt c of None \<Rightarrow> False | Some c' \<Rightarrow> reaches_zero nxt k c'))"

text \<open>
  A well-formed record at \<open>c\<close>: the section it holds and its next offset. A CWDH record is
  well formed when its header is whole, its magic is \<open>CWDH\<close> and its payload holds the
  triples of its interval; a CMAP record when its header is whole and its payload parses
  (its magic is not looked at, and with \<open>debug\<close> on its method must be a known one).
\<close>

definition cwdh_record :: "byte_order \<Rightarrow> byte list \<Rightarrow> int \<Rightarrow> (cwdh_section \<times> int) option" where
  "cwdh_record ord data c =
     (case unpack_header ord CWDH_HEADER_STRUCT (py_slice data (c - 8) (c - 8 + CWDH_HEADER_SIZE)) of
        Inl e \<Rightarrow> None
      | Inr (magic, f) \<Rightarrow>
          if magic \<noteq> CWDH_HEADER_MAGIC then None
          else
            (case parse_cwdh_data
                    \<lparr> cwdh_start = f ! 1, cwdh_end = f ! 2, cwdh_size = f ! 0, cwdh_data = [] \<rparr>
                    (py_slice data (c - 8 + CWDH_HEADER_SIZE)
                       (c - 8 + CWDH_HEADER_SIZE + f ! 0 - CWDH_HEADER_SIZE)) of
               Inl e \<Rightarrow> None
             | Inr info \<Rightarrow> Some (info, f ! 3)))"

definition cmap_record ::
  "byte_order \<Rightarrow> bool \<Rightarrow> byte list \<Rightarrow> int \<Rightarrow> (cmap_section \<times> int) option" where
  "cmap_record ord dbg data c =
     (case unpack_header ord CMAP_HEADER_STRUCT (py_slice data (c - 8) (c - 8 + CMAP_HEADER_SIZE)) of
        Inl e \<Rightarrow> None
      | Inr (magic, f) \<Rightarrow>
          if dbg \<and> f ! 3 \<notin> {MAPPING_DIRECT, MAPPING_TABLE, MAPPING_SCAN} then None
          else
            (case parse_cmap_data ord
                    \<lparr> cmap_size = f ! 0, cmap_start = f ! 1, cmap_end = f ! 2, cmap_type = f ! 3,
                      indexOffset = None, indexTable = None, entries = None \<rparr>
                    (py_slice data (c - 8 + CMAP_HEADER_SIZE)
                       (c - 8 + CMAP_HEADER_SIZE + f ! 0 - CMAP_HEADER_SIZE)) of
               Inl e \<Rightarrow> None
             | Inr info \<Rightarrow> Some (info, f ! 5)))"

text \<open>
  The sections of a chain of well-formed records that starts at \<open>c\<close> and reaches an offset
  not above 0 after at most \<open>k\<close> records, in the order of the chain.
\<close>

fun cwdh_chain :: "byte_order \<Rightarrow> byte list \<Rightarrow> nat \<Rightarrow> int \<Rightarrow> cwdh_section list option" where
  "cwdh_chain ord data 0 c = (if c \<le> 0 then Some [] else None)"
| "cwdh_chain ord data (Suc k) c =
     (if c \<le> 0 then Some []
      else case cwdh_record ord data c of
             None \<Rightarrow> None
           | Some (sec, c') \<Rightarrow> map_option ((#) sec) (cwdh_chain ord data k c'))"

fun cmap_chain ::
  "byte_order \<Rightarrow> bool \<Rightarrow> byte list \<Rightarrow> nat \<Rightarrow> int \<Rightarrow> cmap_section list option" where
  "cmap_chain ord dbg data 0 c = (if c \<le> 0 then Some [] else None)"
| "cmap_chain ord dbg data (Suc k) c =
     (if c \<le> 0 then Some []
      else case cmap_record ord dbg data c of
             None \<Rightarrow> None
           | Some (sec, c') \<Rightarrow> map_option ((#) sec) (cmap_chain ord dbg data k c'))"

section \<open>Pixel codec\<close>

lemma nib_and: "0 \<le> (x::int) \<Longrightarrow> x < 16 \<Longrightarrow> x AND 15 = x"
proof -
  assume a: "0 \<le> x" "x < 16"
  have "take_bit 4 x = x" using a by (simp add: take_bit_int_eq_self)
  then show ?thesis by (simp add: take_bit_eq_mask mask_eq_exp_minus_1)
qed

lemma or_push4_low: "0 \<le> (x::int) \<Longrightarrow> x < 16 \<Longrightarrow> (x OR push_bit 4 y) AND 15 = x"
proof -
  assume a: "0 \<le> x" "x < 16"
  have "take_bit 4 (x OR push_bit 4 y) = take_bit 4 x"
    by (simp add: take_bit_push_bit)
  moreover have "take_bit 4 x = x" using a by (simp add: take_bit_int_eq_self)
  ultimately show ?thesis by (simp add: take_bit_eq_mask mask_eq_exp_minus_1)
qed

lemma or_push4_high: "0 \<le> (x::int) \<Longrightarrow> x < 16 \<Longrightarrow> drop_bit 4 (x OR push_bit 4 y) = y"
proof -
  assume a: "0 \<le> x" "x < 16"
  have "drop_bit 4 x = 0" using a by (simp add: drop_bit_eq_div)
  then show ?thesis by (simp add: drop_bit_push_bit)
qed

lemma uint_byte: "0 \<le> x \<Longrightarrow> x \<le> 255 \<Longrightarrow> uint (word_of_int x :: byte) = x"
  by (simp add: uint_word_of_int take_bit_int_eq_self)

text \<open>
  The formats whose round trip is exact: RGBA8, RGB8 (alpha fixed to 255), A8 and A4 (colour
  fixed to white; for A4 the alpha is a multiple of 17).
\<close>

lemma roundtrip_RGBA8:
  assumes "index < length bmp" "bmp ! index = (r, g, b, a)"
    and "0 \<le> r" "r \<le> 255" "0 \<le> g" "g \<le> 255" "0 \<le> b" "b \<le> 255" "0 \<le> a" "a \<le> 255"
  shows "encode_decode luma RGBA8 bmp index = Inr (r, g, b, a)"
  using assms
  by (simp add: encode_decode_def get_tglp_pixel_data_def pack_B_def get_pixel_data_def slice_def
      uint_byte)

lemma roundtrip_RGB8:
  assumes "index < length bmp" "bmp ! index = (r, g, b, 255)"
    and "0 \<le> r" "r \<le> 255" "0 \<le> g" "g \<le> 255" "0 \<le> b" "b \<le> 255"
  shows "encode_decode luma RGB8 bmp index = Inr (r, g, b, 255)"
  using assms
  by (simp add: encode_decode_def get_tglp_pixel_data_def pack_B_def get_pixel_data_def slice_def
      uint_byte)

lemma roundtrip_A8:
  assumes "index < length bmp" "bmp ! index = (255, 255, 255, a)"
    and "0 \<le> a" "a \<le> 255"
  shows "encode_decode luma A8 bmp index = Inr (255, 255, 255, a)"
  using assms
  by (simp add: encode_decode_def get_tglp_pixel_data_def pack_B_def get_pixel_data_def slice_def
      uint_byte)

lemma roundtrip_A4:
  assumes "index < length bmp" "bmp ! index = (255, 255, 255, 17 * k)"
    and "0 \<le> k" "k < 16"
  shows "encode_decode luma A4 bmp index = Inr (255, 255, 255, 17 * k)"
proof -
  have half: "index * 4 div 8 = index div 2" by presburger
  have par: "index AND 1 = index mod 2" by (simp add: and_one_eq)
  have k: "k AND 15 = k" using assms by (simp add: nib_and)
  have pk: "push_bit 4 k AND 240 = push_bit 4 k" using arg_cong [OF k, of "push_bit 4"] by simp
  have r: "0 \<le> push_bit 4 k" "push_bit 4 k \<le> 255" using assms by (simp_all add: push_bit_eq_mult)
  have d: "drop_bit 4 (push_bit 4 k) = k" by (simp add: drop_bit_push_bit)
  show ?thesis
  proof (cases "index mod 2 = 0")
    case True
    with assms k show ?thesis
      by (simp add: encode_decode_def get_tglp_pixel_data_def pack_B_def get_pixel_data_def half par
          uint_byte nth_append)
  next
    case False
    then have "index mod 2 = 1" by presburger
    with assms k pk r d show ?thesis
      by (simp add: encode_decode_def get_tglp_pixel_data_def pack_B_def get_pixel_data_def half par
          uint_byte nth_append)
  qed
qed

text \<open>
  Claim C1. For each of the formats RGBA8, RGB8, RGBA5551, RGB565, RGBA4, A8 and A4, decoding
  the encoding of a pixel that the format represents exactly gives the pixel back. The code
  does so for RGBA8, RGB8, A8 and A4 (the four lemmas above) and not for the other three.
  RGBA4: the encoder packs \<open>rrrrgggg bbbbaaaa\<close> and the decoder reads alpha from the low
  nibble of the first byte and green from the low nibble of the second, so green and alpha
  come back exchanged. RGBA5551 and RGB565: the decoder returns the stored 5-bit values
  unexpanded and ORs the two parts of green together without shifting, so white comes back
  as \<open>(31, 7, 31, 255)\<close>.
\<close>

theorem codec_roundtrip_fails_RGBA4_RGBA5551_RGB565:
  "encode_decode luma RGBA4 [(0x11, 0x22, 0x33, 0x44)] 0 = Inr (0x11, 0x44, 0x33, 0x22)
   \<and> encode_decode luma RGBA5551 [(255, 255, 255, 255)] 0 = Inr (31, 7, 31, 255)
   \<and> encode_decode luma RGB565 [(255, 255, 255, 255)] 0 = Inr (31, 7, 31, 255)"
  by (simp add: encode_decode_def get_tglp_pixel_data_def pack_B_def get_pixel_data_def slice_def)

text \<open>
  The encoder's half of the 5/6-bit convention: the red field stored in the top five bits of
  the first byte is the red channel divided by \<open>2 ^ (8 - 5)\<close>, in both formats.
\<close>

lemma or_push3_high: "0 \<le> (x::int) \<Longrightarrow> x < 8 \<Longrightarrow> drop_bit 3 (push_bit 3 y OR x) = y"
proof -
  assume a: "0 \<le> x" "x < 8"
  have "drop_bit 3 x = 0" using a by (simp add: drop_bit_eq_div)
  then show ?thesis by (simp add: drop_bit_push_bit)
qed

lemma and_31: "0 \<le> (x::int) \<Longrightarrow> x < 32 \<Longrightarrow> x AND 31 = x"
proof -
  assume a: "0 \<le> x" "x < 32"
  have "take_bit 5 x = x" using a by (simp add: take_bit_int_eq_self)
  then show ?thesis by (simp add: take_bit_eq_mask mask_eq_exp_minus_1)
qed

lemma and_63: "0 \<le> (x::int) \<Longrightarrow> x < 64 \<Longrightarrow> x AND 63 = x"
proof -
  assume a: "0 \<le> x" "x < 64"
  have "take_bit 6 x = x" using a by (simp add: take_bit_int_eq_self)
  then show ?thesis by (simp add: take_bit_eq_mask mask_eq_exp_minus_1)
qed

lemma encode_red_is_integer_division:
  assumes "index < length bmp" "bmp ! index = (r, g, b, a)"
    and "0 \<le> r" "r \<le> 255" "0 \<le> g" "g \<le> 255"
  shows "\<exists>b1 b2. get_tglp_pixel_data luma bmp index RGBA5551 = Inr [b1, b2]
                 \<and> drop_bit 3 b1 = r div 8"
    and "\<exists>b1 b2. get_tglp_pixel_data luma bmp index RGB565 = Inr [b1, b2]
                 \<and> drop_bit 3 b1 = r div 8"
proof -
  have r5: "(r div 8) AND 31 = r div 8" using assms by (intro and_31) auto
  have g5: "(g div 8) AND 31 = g div 8" using assms by (intro and_31) auto
  have g6: "(g div 4) AND 63 = g div 4" using assms by (intro and_63) auto
  have lo5: "0 \<le> drop_bit 2 (g div 8)" "drop_bit 2 (g div 8) < 8"
    using assms by (auto simp: drop_bit_eq_div)
  have lo6: "0 \<le> drop_bit 3 (g div 4)" "drop_bit 3 (g div 4) < 8"
    using assms by (auto simp: drop_bit_eq_div)
  have "\<not> length bmp \<le> index" using assms(1) by simp
  then have e1: "get_tglp_pixel_data luma bmp index RGBA5551 =
      Inr [(push_bit 3 (r div 8)) OR (drop_bit 2 (g div 8)),
           ((push_bit 6 (g div 8)) OR (push_bit 1 ((b div 8) AND 0x1F))
              OR (if a > 0 then 1 else 0)) AND 0xFF]"
    and e2: "get_tglp_pixel_data luma bmp index RGB565 =
      Inr [(push_bit 3 (r div 8)) OR (drop_bit 3 (g div 4)),
           ((push_bit 5 (g div 4)) OR ((b div 8) AND 0x1F)) AND 0xFF]"
    by (simp_all only: get_tglp_pixel_data_def Let_def if_False assms(2) prod.case format.case
        r5 g5 g6)
  show "\<exists>b1 b2. get_tglp_pixel_data luma bmp index RGBA5551 = Inr [b1, b2]
                 \<and> drop_bit 3 b1 = r div 8"
    using e1 or_push3_high [OF lo5] by blast
  show "\<exists>b1 b2. get_tglp_pixel_data luma bmp index RGB565 = Inr [b1, b2]
                 \<and> drop_bit 3 b1 = r div 8"
    using e2 or_push3_high [OF lo6] by blast
qed

text \<open>
  Claim C5. RGBA5551 and RGB565 divide each channel by \<open>2 ^ (8 - bits)\<close> on encode (lemma
  \<open>encode_red_is_integer_division\<close> for red) and, on decode, expand a stored 5-bit value
  \<open>v\<close> to \<open>(v << 3) | (v >> 2)\<close> and a 6-bit value to \<open>(v << 2) | (v >> 4)\<close>. The decoder does not expand: the bytes \<open>F8 00\<close>
  hold the 5-bit red value 31, which the claim decodes to 255 and the code to 31; the bytes
  \<open>07 E0\<close> hold the 6-bit green value 63 of RGB565, which the code decodes to 7.
\<close>

theorem decode_5551_565_not_expanded:
  "get_pixel_data RGBA5551 [0xF8, 0x00] 0 = Inr (31, 0, 0, 0)
   \<and> get_pixel_data RGB565 [0x07, 0xE0] 0 = Inr (0, 7, 0, 255)"
  by (simp add: get_pixel_data_def slice_def)

section \<open>Four-bit formats in the sheet assembly\<close>

text \<open>
  A4 does what is asked of the 4-bit formats: the two pixels of a byte are ORed into it, in
  either order, and each is decoded from its own nibble.
\<close>

lemma A4_shared_byte:
  fixes r0 g0 b0 a0 r1 g1 b1 a1 :: int
  assumes a0: "0 \<le> a0" "a0 \<le> 255" and a1: "0 \<le> a1" "a1 \<le> 255"
  defines "bmp \<equiv> [(r0, g0, b0, a0), (r1, g1, b1, a1)]"
  defines "shared \<equiv> (a0 div 17) OR push_bit 4 (a1 div 17)"
  shows "bitmap_to_sheet_vistor luma A4 A4 bmp 0 [0] 0 = Inr (bmp, [a0 div 17])"
    and "bitmap_to_sheet_vistor luma A4 A4 bmp 1 [a0 div 17] 1 = Inr (bmp, [shared])"
    and "bitmap_to_sheet_vistor luma A4 A4 bmp 1 [0] 1 = Inr (bmp, [push_bit 4 (a1 div 17)])"
    and "bitmap_to_sheet_vistor luma A4 A4 bmp 0 [push_bit 4 (a1 div 17)] 0 = Inr (bmp, [shared])"
    and "pack_B [shared] = Inr [word_of_int shared]"
    and "get_pixel_data A4 [word_of_int shared] 0 = Inr (255, 255, 255, (a0 div 17) * 17)"
    and "get_pixel_data A4 [word_of_int shared] 1 = Inr (255, 255, 255, (a1 div 17) * 17)"
proof -
  have n0: "0 \<le> a0 div 17" "a0 div 17 < 16" using a0 by auto
  have n1: "0 \<le> a1 div 17" "a1 div 17 < 16" using a1 by auto
  have m0: "(a0 div 17) AND 15 = a0 div 17" using n0 by (rule nib_and)
  have m1: "(a1 div 17) AND 15 = a1 div 17" using n1 by (rule nib_and)
  have pm1: "push_bit 4 (a1 div 17) AND 240 = push_bit 4 (a1 div 17)"
    using arg_cong [OF m1, of "push_bit 4"] by simp
  have lo: "shared AND 15 = a0 div 17" unfolding shared_def using n0 by (rule or_push4_low)
  have hi: "drop_bit 4 shared = a1 div 17" unfolding shared_def using n0 by (rule or_push4_high)
  have b0: "0 \<le> shared" unfolding shared_def using n0 n1 by simp
  have b1: "shared < 256"
  proof -
    have "a0 div 17 < 2 ^ 8" "push_bit 4 (a1 div 17) < 2 ^ 8"
      using n0 n1 by (simp_all add: push_bit_eq_mult)
    with n0 have "(a0 div 17) OR push_bit 4 (a1 div 17) < 2 ^ 8"
      by (intro OR_upper)
    then show ?thesis by (simp add: shared_def)
  qed
  show "bitmap_to_sheet_vistor luma A4 A4 bmp 0 [0] 0 = Inr (bmp, [a0 div 17])"
    by (simp add: bitmap_to_sheet_vistor_def get_tglp_pixel_data_def bmp_def m0)
  show "bitmap_to_sheet_vistor luma A4 A4 bmp 1 [a0 div 17] 1 = Inr (bmp, [shared])"
    by (simp add: bitmap_to_sheet_vistor_def get_tglp_pixel_data_def bmp_def pm1 shared_def)
  show "bitmap_to_sheet_vistor luma A4 A4 bmp 1 [0] 1 = Inr (bmp, [push_bit 4 (a1 div 17)])"
    by (simp add: bitmap_to_sheet_vistor_def get_tglp_pixel_data_def bmp_def pm1)
  show "bitmap_to_sheet_vistor luma A4 A4 bmp 0 [push_bit 4 (a1 div 17)] 0 = Inr (bmp, [shared])"
    by (simp add: bitmap_to_sheet_vistor_def get_tglp_pixel_data_def bmp_def m0 shared_def
        or.commute)
  show "pack_B [shared] = Inr [word_of_int shared]"
    using b0 b1 by (simp add: pack_B_def)
  have u: "uint (word_of_int shared :: byte) = shared"
    using b0 b1 by (simp add: uint_word_of_int take_bit_int_eq_self)
  show "get_pixel_data A4 [word_of_int shared] 0 = Inr (255, 255, 255, (a0 div 17) * 17)"
    by (simp add: get_pixel_data_def u lo)
  show "get_pixel_data A4 [word_of_int shared] 1 = Inr (255, 255, 255, (a1 div 17) * 17)"
    using n1 by (simp add: get_pixel_data_def u hi nib_and)
qed

text \<open>
  L4 stores the whole luma value, shifted by the parity of the index: unlike LA4 it neither
  divides by \<open>0x11\<close> nor masks to four bits.
\<close>

lemma L4_fragment_is_whole_luma:
  assumes "index < length bmp" "bmp ! index = (r, g, b, a)"
  shows "get_tglp_pixel_data luma bmp index L4 = Inr [push_bit ((index AND 1) * 4) (luma r g b)]"
  using assms by (simp add: get_tglp_pixel_data_def)

text \<open>
  At an odd index the shifted luma does not fit a byte, and \<open>save\<close> cannot pack the sheet.
\<close>

lemma L4_odd_pixel_exceeds_byte:
  assumes "luma 255 255 255 = 254"
  shows "bitmap_to_sheet_vistor luma L4 L4 [(0, 0, 0, 255), (255, 255, 255, 255)] 1 [0] 1
           = Inr ([(0, 0, 0, 255), (255, 255, 255, 255)], [4064])"
    and "pack_B [4064] = Inl StructError"
  using assms
  by (simp_all add: bitmap_to_sheet_vistor_def get_tglp_pixel_data_def pack_B_def)

text \<open>
  Claim C8. For L4 and A4 the encoder yields one 4-bit nibble, placed by the parity of the
  pixel index, and the sheet assembly ORs it into the shared byte, so that both pixels of a
  byte keep their nibbles in either order. A4 does (lemma \<open>A4_shared_byte\<close>). L4 does not: a
  white pixel at index 0, whose luma the source computes as 254, writes \<open>0xFE\<close> over both
  nibbles, and the black pixel at index 1 is then decoded as white.
\<close>

theorem L4_even_pixel_overwrites_odd_nibble:
  assumes "luma 255 255 255 = 254" and "luma 0 0 0 = 0"
  shows "bitmap_to_sheet_vistor luma L4 L4 [(255, 255, 255, 255), (0, 0, 0, 255)] 0 [0] 0
           = Inr ([(255, 255, 255, 255), (0, 0, 0, 255)], [254])
         \<and> bitmap_to_sheet_vistor luma L4 L4 [(255, 255, 255, 255), (0, 0, 0, 255)] 1 [254] 1
           = Inr ([(255, 255, 255, 255), (0, 0, 0, 255)], [254])
         \<and> pack_B [254] = Inr [254]
         \<and> get_pixel_data L4 [254] 1 = Inr (255, 255, 255, 255)"
  using assms
  by (simp add: bitmap_to_sheet_vistor_def get_tglp_pixel_data_def get_pixel_data_def pack_B_def)

theorem L4_even_pixel_overwrites_odd_nibble_witness:
  "(\<lambda>r g b. if r = (255 :: int) then 254 else 0) 255 255 255 = (254 :: int)
   \<and> (\<lambda>r g b. if r = (255 :: int) then 254 else 0) 0 0 0 = (0 :: int)
   \<and> bitmap_to_sheet_vistor (\<lambda>r g b. if r = (255 :: int) then 254 else 0) L4 L4
        [(255, 255, 255, 255), (0, 0, 0, 255)] 0 [0] 0
        = Inr ([(255, 255, 255, 255), (0, 0, 0, 255)], [254])
   \<and> bitmap_to_sheet_vistor (\<lambda>r g b. if r = (255 :: int) then 254 else 0) L4 L4
        [(255, 255, 255, 255), (0, 0, 0, 255)] 1 [254] 1
        = Inr ([(255, 255, 255, 255), (0, 0, 0, 255)], [254])
   \<and> pack_B [254] = Inr [254]
   \<and> get_pixel_data L4 [254] 1 = Inr (255, 255, 255, 255)"
  using L4_even_pixel_overwrites_odd_nibble [of "\<lambda>r g b. if r = (255 :: int) then 254 else 0"]
  by simp

section \<open>ETC1 base colours\<close>

lemma field5: "(drop_bit k p) AND 0x1F = bit_field p k 5" for p :: int
  using take_bit_eq_mask [of 5 "drop_bit k p"]
  by (simp add: bit_field_def drop_bit_eq_div take_bit_eq_mod mask_eq_exp_minus_1)

lemma field3: "(drop_bit k p) AND 0x07 = bit_field p k 3" for p :: int
  using take_bit_eq_mask [of 3 "drop_bit k p"]
  by (simp add: bit_field_def drop_bit_eq_div take_bit_eq_mod mask_eq_exp_minus_1)

text \<open>
  The expansion as the code computes it, for any integer: the low three bits are taken
  modulo 8, and nothing bounds the result.
\<close>

lemma expand_any: "(push_bit 3 v) OR ((drop_bit 2 v) AND 0x07) = 8 * v + (v div 4) mod 8" for v :: int
proof -
  have t: "take_bit 3 (drop_bit 2 v) = (v div 4) mod 8"
    by (simp add: take_bit_eq_mod drop_bit_eq_div)
  have m: "(drop_bit 2 v) AND 0x07 = (v div 4) mod 8"
    using take_bit_eq_mask [of 3 "drop_bit 2 v"] t by (simp add: mask_eq_exp_minus_1)
  have "push_bit 3 v + take_bit 3 (drop_bit 2 v) = push_bit 3 v OR take_bit 3 (drop_bit 2 v)"
    by (rule disjunctive_add_eq_or) (simp add: bit_eq_iff bit_simps)
  then have "push_bit 3 v OR ((v div 4) mod 8) = push_bit 3 v + (v div 4) mod 8"
    by (simp only: t)
  then show ?thesis
    by (simp only: m) (simp add: push_bit_eq_mult)
qed

text \<open>
  On a 5-bit value the code's expansion is the 8-bit value of the description.
\<close>

lemma expand5:
  assumes "0 \<le> v" "v < 32"
  shows "(push_bit 3 v) OR ((drop_bit 2 v) AND 0x07) = replicate_top3 v"
proof -
  have "v div 4 < 8" using assms by simp
  moreover have "0 \<le> v div 4" using assms by simp
  ultimately have "(v div 4) mod 8 = v div 4" by simp
  then show ?thesis by (simp only: expand_any replicate_top3_def)
qed

lemma complement3: "0 \<le> d \<Longrightarrow> d < 8 \<Longrightarrow> complement d 3 = sign_extend3 d"
  by (auto simp: complement_def sign_extend3_def drop_bit_eq_div push_bit_eq_mult)

lemma bit_field_range: "0 \<le> bit_field p k n" "bit_field p k n < 2 ^ n"
  by (simp_all add: bit_field_def)

text \<open>
  On a 5-bit value the expansion is an 8-bit value whose top five bits are the value and
  whose low three bits are the value's top three.
\<close>

lemma replicate_top3_bits:
  assumes "0 \<le> v" "v < 32"
  shows "replicate_top3 v div 8 = v" and "replicate_top3 v mod 8 = v div 4"
    and "0 \<le> replicate_top3 v" and "replicate_top3 v \<le> 255"
  using assms by (auto simp: replicate_top3_def)

text \<open>
  The base colours of a differential block as the code computes them: the first from the
  code words, the second from the sums, whatever their range.
\<close>

lemma etc1_differential_raw:
  assumes "(drop_bit 33 pixels) AND 0x01 = 1"
  shows "etc1_base_colors pixels =
           ([replicate_top3 (bit_field pixels 59 5),
             replicate_top3 (bit_field pixels 51 5),
             replicate_top3 (bit_field pixels 43 5)],
            map (\<lambda>s. 8 * s + (s div 4) mod 8)
              [bit_field pixels 59 5 + sign_extend3 (bit_field pixels 56 3),
               bit_field pixels 51 5 + sign_extend3 (bit_field pixels 48 3),
               bit_field pixels 43 5 + sign_extend3 (bit_field pixels 40 3)])"
proof -
  have c: "complement (bit_field pixels k 3) 3 = sign_extend3 (bit_field pixels k 3)" for k
    using bit_field_range [of pixels k 3] by (intro complement3) simp_all
  have e: "8 * bit_field pixels k 5 + (bit_field pixels k 5 div 4) mod 8
             = replicate_top3 (bit_field pixels k 5)" for k
    using bit_field_range [of pixels k 5] expand5 [of "bit_field pixels k 5"]
    by (simp only: expand_any) simp
  show ?thesis
    using assms
    by (simp only: etc1_base_colors_def Let_def expand_any)
       (simp only: field5 field3 c e list.map simp_thms if_True)
qed

lemma in_range_expand:
  assumes "0 \<le> s" "s \<le> 31" "c = 8 * s + (s div 4) mod 8"
  shows "c = replicate_top3 s \<and> 0 \<le> c \<and> c \<le> 255 \<and> c div 8 = s \<and> c mod 8 = s div 4"
proof -
  have "0 \<le> s div 4" "s div 4 < 8" using assms(1,2) by simp_all
  then have "(s div 4) mod 8 = s div 4" by simp
  then have c: "c = replicate_top3 s" by (simp only: assms(3) replicate_top3_def)
  show ?thesis
    unfolding c using replicate_top3_bits [of s] assms(1,2) by simp
qed

text \<open>
  Claim C7, as the code has it. In differential mode (bit 33 of the block set), each base
  channel of the first sub-block is the 5-bit code word (at bits 59, 51, 43) expanded to
  8 bits by copying its top three bits into the low three: a value in 0..255 whose top five
  bits are the code word and whose low three bits are the code word's top three. Each base
  channel of the second sub-block is computed from the code word plus the 3-bit delta (at
  bits 56, 48, 40) read as two's complement (a value with the top bit set counts as the
  value minus 8); when that sum lies in 0..31 the channel is the sum expanded to 8 bits in
  the same way.
\<close>

theorem etc1_differential_base_colors_in_range:
  assumes "(drop_bit 33 pixels) AND 0x01 = 1"
  shows "fst (etc1_base_colors pixels) =
           [replicate_top3 (bit_field pixels 59 5),
            replicate_top3 (bit_field pixels 51 5),
            replicate_top3 (bit_field pixels 43 5)]
       \<and> (\<forall>k \<in> {59, 51, 43}.
            0 \<le> replicate_top3 (bit_field pixels k 5)
            \<and> replicate_top3 (bit_field pixels k 5) \<le> 255
            \<and> replicate_top3 (bit_field pixels k 5) div 8 = bit_field pixels k 5
            \<and> replicate_top3 (bit_field pixels k 5) mod 8 = bit_field pixels k 5 div 4)
       \<and> length (snd (etc1_base_colors pixels)) = 3
       \<and> (\<forall>i < 3.
            let s = bit_field pixels ([59, 51, 43] ! i) 5
                    + sign_extend3 (bit_field pixels ([56, 48, 40] ! i) 3);
                c = snd (etc1_base_colors pixels) ! i
            in 0 \<le> s \<and> s \<le> 31 \<longrightarrow>
                 c = replicate_top3 s \<and> 0 \<le> c \<and> c \<le> 255 \<and> c div 8 = s \<and> c mod 8 = s div 4)"
proof -
  note raw = etc1_differential_raw [OF assms]
  have first: "fst (etc1_base_colors pixels) =
           [replicate_top3 (bit_field pixels 59 5),
            replicate_top3 (bit_field pixels 51 5),
            replicate_top3 (bit_field pixels 43 5)]"
    by (simp only: raw fst_conv)
  have shape: "0 \<le> replicate_top3 (bit_field pixels k 5)
            \<and> replicate_top3 (bit_field pixels k 5) \<le> 255
            \<and> replicate_top3 (bit_field pixels k 5) div 8 = bit_field pixels k 5
            \<and> replicate_top3 (bit_field pixels k 5) mod 8 = bit_field pixels k 5 div 4" for k
    using bit_field_range [of pixels k 5] replicate_top3_bits [of "bit_field pixels k 5"]
    by simp
  have len: "length (snd (etc1_base_colors pixels)) = 3"
    by (simp only: raw snd_conv) simp
  have second: "let s = bit_field pixels ([59, 51, 43] ! i) 5
                    + sign_extend3 (bit_field pixels ([56, 48, 40] ! i) 3);
                c = snd (etc1_base_colors pixels) ! i
            in 0 \<le> s \<and> s \<le> 31 \<longrightarrow>
                 c = replicate_top3 s \<and> 0 \<le> c \<and> c \<le> 255 \<and> c div 8 = s \<and> c mod 8 = s div 4"
    if "i < 3" for i
  proof -
    from that consider "i = 0" | "i = 1" | "i = 2" by linarith
    then show ?thesis
    proof cases
      case 1
      have idx: "[59, 51, 43 :: nat] ! 0 = 59" "[56, 48, 40 :: nat] ! 0 = 56" by simp_all
      have C: "snd (etc1_base_colors pixels) ! 0
                 = 8 * (bit_field pixels 59 5 + sign_extend3 (bit_field pixels 56 3))
                   + ((bit_field pixels 59 5 + sign_extend3 (bit_field pixels 56 3)) div 4) mod 8"
        by (simp only: raw snd_conv list.map nth_Cons_0)
      show ?thesis
        unfolding Let_def 1 idx using in_range_expand [OF _ _ C] by blast
    next
      case 2
      have idx: "[59, 51, 43 :: nat] ! 1 = 51" "[56, 48, 40 :: nat] ! 1 = 48" by simp_all
      have C: "snd (etc1_base_colors pixels) ! 1
                 = 8 * (bit_field pixels 51 5 + sign_extend3 (bit_field pixels 48 3))
                   + ((bit_field pixels 51 5 + sign_extend3 (bit_field pixels 48 3)) div 4) mod 8"
        by (simp only: raw snd_conv list.map nth_Cons_0 nth_Cons_Suc One_nat_def)
      show ?thesis
        unfolding Let_def 2 idx using in_range_expand [OF _ _ C] by blast
    next
      case 3
      have idx: "[59, 51, 43 :: nat] ! 2 = 43" "[56, 48, 40 :: nat] ! 2 = 40" by simp_all
      have C: "snd (etc1_base_colors pixels) ! 2
                 = 8 * (bit_field pixels 43 5 + sign_extend3 (bit_field pixels 40 3))
                   + ((bit_field pixels 43 5 + sign_extend3 (bit_field pixels 40 3)) div 4) mod 8"
        by (simp only: raw snd_conv list.map nth_Cons_0 nth_Cons_Suc numeral_2_eq_2)
      show ?thesis
        unfolding Let_def 3 idx using in_range_expand [OF _ _ C] by blast
    qed
  qed
  from first shape len second show ?thesis by blast
qed

theorem etc1_differential_base_colors_in_range_witness:
  "(drop_bit 33 (0xFF11A80200000000 :: int)) AND 0x01 = 1
   \<and> bit_field 0xFF11A80200000000 59 5 + sign_extend3 (bit_field 0xFF11A80200000000 56 3) = 30
   \<and> bit_field 0xFF11A80200000000 51 5 + sign_extend3 (bit_field 0xFF11A80200000000 48 3) = 3
   \<and> bit_field 0xFF11A80200000000 43 5 + sign_extend3 (bit_field 0xFF11A80200000000 40 3) = 21
   \<and> fst (etc1_base_colors 0xFF11A80200000000) = [255, 16, 173]
   \<and> snd (etc1_base_colors 0xFF11A80200000000) ! 0 = 247
   \<and> snd (etc1_base_colors 0xFF11A80200000000) ! 1 = 24
   \<and> snd (etc1_base_colors 0xFF11A80200000000) ! 2 = 173"
proof -
  have h: "(drop_bit 33 (0xFF11A80200000000 :: int)) AND 0x01 = 1" by simp
  have s: "bit_field 0xFF11A80200000000 59 5 + sign_extend3 (bit_field 0xFF11A80200000000 56 3) = 30"
    "bit_field 0xFF11A80200000000 51 5 + sign_extend3 (bit_field 0xFF11A80200000000 48 3) = 3"
    "bit_field 0xFF11A80200000000 43 5 + sign_extend3 (bit_field 0xFF11A80200000000 40 3) = 21"
    by (simp_all add: bit_field_def sign_extend3_def)
  have f: "bit_field 0xFF11A80200000000 59 5 = 31" "bit_field 0xFF11A80200000000 51 5 = 2"
    "bit_field 0xFF11A80200000000 43 5 = 21"
    by (simp_all add: bit_field_def)
  note t = etc1_differential_base_colors_in_range [OF h]
  from t have a: "fst (etc1_base_colors 0xFF11A80200000000) = [255, 16, 173]"
    by (simp add: f replicate_top3_def)
  from t have b: "\<forall>i < 3.
            let s = bit_field 0xFF11A80200000000 ([59, 51, 43] ! i) 5
                    + sign_extend3 (bit_field 0xFF11A80200000000 ([56, 48, 40] ! i) 3);
                c = snd (etc1_base_colors 0xFF11A80200000000) ! i
            in 0 \<le> s \<and> s \<le> 31 \<longrightarrow> c = replicate_top3 s"
    by (simp add: Let_def)
  from b [rule_format, of 0] have c0: "snd (etc1_base_colors 0xFF11A80200000000) ! 0 = 247"
    by (simp add: Let_def s replicate_top3_def)
  from b [rule_format, of 1] have c1: "snd (etc1_base_colors 0xFF11A80200000000) ! 1 = 24"
    by (simp add: Let_def s replicate_top3_def)
  from b [rule_format, of 2] have c2: "snd (etc1_base_colors 0xFF11A80200000000) ! 2 = 173"
    by (simp add: Let_def s replicate_top3_def numeral_2_eq_2)
  from h s a c0 c1 c2 show ?thesis by simp
qed

text \<open>
  A sum outside 0..31 is neither clamped nor wrapped to five bits. In the first block the
  red code word is 31 and the delta 3: the sum is 34 and the second base channel 272, above
  any 8-bit value. In the second block the code word is 0 and the delta -4: the channel is
  -25.
\<close>

theorem etc1_differential_sum_out_of_range_counterexample:
  "(drop_bit 33 (0xFB00000200000000 :: int)) AND 0x01 = 1
   \<and> bit_field 0xFB00000200000000 59 5 + sign_extend3 (bit_field 0xFB00000200000000 56 3) = 34
   \<and> etc1_base_colors 0xFB00000200000000 = ([255, 0, 0], [272, 0, 0])
   \<and> (drop_bit 33 (0x0400000200000000 :: int)) AND 0x01 = 1
   \<and> bit_field 0x0400000200000000 59 5 + sign_extend3 (bit_field 0x0400000200000000 56 3) = - 4
   \<and> etc1_base_colors 0x0400000200000000 = ([0, 0, 0], [- 25, 0, 0])"
proof -
  have a: "etc1_base_colors 0xFB00000200000000 = ([255, 0, 0], [272, 0, 0])" by code_simp
  have b: "etc1_base_colors 0x0400000200000000 = ([0, 0, 0], [- 25, 0, 0])" by code_simp
  show ?thesis
    by (simp only: a b) (simp add: bit_field_def sign_extend3_def)
qed

section \<open>Width records\<close>

lemma cwdh_triples_result:
  "position + 3 * n \<le> length data \<Longrightarrow>
   \<exists>ts. cwdh_triples n data position = Inr ts \<and> length ts = n \<and>
     (\<forall>i<n. ts ! i = \<lparr> left = sint (data ! (position + 3 * i)),
                         glyph = uint (data ! (position + 3 * i + 1)),
                         char = uint (data ! (position + 3 * i + 2)) \<rparr>)"
proof (induction n arbitrary: position)
  case 0
  then show ?case by simp
next
  case (Suc n)
  from Suc.prems have len: "length (slice data position (position + 3)) = 3"
    by (simp add: slice_def)
  from Suc.prems have "position + 3 + 3 * n \<le> length data" by simp
  from Suc.IH [OF this] obtain ts where
    ts: "cwdh_triples n data (position + 3) = Inr ts" "length ts = n"
      "\<forall>i<n. ts ! i = \<lparr> left = sint (data ! (position + 3 + 3 * i)),
                         glyph = uint (data ! (position + 3 + 3 * i + 1)),
                         char = uint (data ! (position + 3 + 3 * i + 2)) \<rparr>"
    by blast
  let ?t = "\<lparr> left = sint (data ! position), glyph = uint (data ! (position + 1)),
               char = uint (data ! (position + 2)) \<rparr>"
  have s: "slice data position (position + 3) ! 0 = data ! position"
    "slice data position (position + 3) ! 1 = data ! (position + 1)"
    "slice data position (position + 3) ! 2 = data ! (position + 2)"
    using Suc.prems by (simp_all add: slice_def)
  have res: "cwdh_triples (Suc n) data position = Inr (?t # ts)"
    unfolding cwdh_triples.simps Let_def s using len ts(1) by simp
  have "(?t # ts) ! i = \<lparr> left = sint (data ! (position + 3 * i)),
                           glyph = uint (data ! (position + 3 * i + 1)),
                           char = uint (data ! (position + 3 * i + 2)) \<rparr>"
    if "i < Suc n" for i
  proof (cases i)
    case 0
    then show ?thesis by simp
  next
    case (Suc j)
    with that have "j < n" by simp
    with ts(3) Suc show ?thesis by (simp add: add.assoc add.left_commute)
  qed
  with res ts(2) show ?case by simp
qed

text \<open>
  Claim C9, as the code has it. A CWDH payload for the interval \<open>[start, end]\<close> that holds
  at least \<open>3 * (end - start + 1)\<close> bytes yields exactly \<open>end - start + 1\<close> triples, the
  \<open>i\<close>-th from the bytes \<open>3i\<close>, \<open>3i + 1\<close>, \<open>3i + 2\<close>. Only \<open>left\<close> is read as a signed
  byte, in \<open>[-128, 127]\<close>; \<open>glyph\<close> and \<open>char\<close> are read as unsigned bytes, in \<open>[0, 255]\<close>
  (the format string is \<open>'b2B'\<close>).
\<close>

theorem parse_cwdh_data_triples:
  assumes "cwdh_start info \<le> cwdh_end info"
    and "3 * (cwdh_end info - cwdh_start info + 1) \<le> int (length data)"
  shows "\<exists>ts. parse_cwdh_data info data = Inr (info\<lparr>cwdh_data := ts\<rparr>)
           \<and> int (length ts) = cwdh_end info - cwdh_start info + 1
           \<and> (\<forall>i < length ts.
                 ts ! i = \<lparr> left = sint (data ! (3 * i)), glyph = uint (data ! (3 * i + 1)),
                             char = uint (data ! (3 * i + 2)) \<rparr>
                 \<and> - 128 \<le> left (ts ! i) \<and> left (ts ! i) \<le> 127
                 \<and> 0 \<le> glyph (ts ! i) \<and> glyph (ts ! i) \<le> 255
                 \<and> 0 \<le> char (ts ! i) \<and> char (ts ! i) \<le> 255)"
proof -
  define n where "n = nat (cwdh_end info - cwdh_start info + 1)"
  have n: "int n = cwdh_end info - cwdh_start info + 1"
    using assms(1) by (simp add: n_def)
  have "int (3 * n) \<le> int (length data)" using assms(2) n by simp
  then have "0 + 3 * n \<le> length data" by (simp only: of_nat_le_iff add_0)
  from cwdh_triples_result [OF this] obtain ts where
    ts: "cwdh_triples n data 0 = Inr ts" "length ts = n"
      "\<forall>i<n. ts ! i = \<lparr> left = sint (data ! (0 + 3 * i)),
                         glyph = uint (data ! (0 + 3 * i + 1)),
                         char = uint (data ! (0 + 3 * i + 2)) \<rparr>"
    by blast
  have sb: "- 128 \<le> sint w \<and> sint w \<le> 127" for w :: byte
    using sint_ge [of w] sint_lt [of w] by simp
  have ub: "0 \<le> uint w \<and> uint w \<le> 255" for w :: byte
    using uint_lt2p [of w] by simp
  have "parse_cwdh_data info data = Inr (info\<lparr>cwdh_data := ts\<rparr>)"
    using ts(1) by (simp add: parse_cwdh_data_def n_def)
  moreover have "int (length ts) = cwdh_end info - cwdh_start info + 1"
    using ts(2) n by simp
  moreover have "\<forall>i < length ts.
                 ts ! i = \<lparr> left = sint (data ! (3 * i)), glyph = uint (data ! (3 * i + 1)),
                             char = uint (data ! (3 * i + 2)) \<rparr>
                 \<and> - 128 \<le> left (ts ! i) \<and> left (ts ! i) \<le> 127
                 \<and> 0 \<le> glyph (ts ! i) \<and> glyph (ts ! i) \<le> 255
                 \<and> 0 \<le> char (ts ! i) \<and> char (ts ! i) \<le> 255"
    using ts(2,3) sb ub by simp
  ultimately show ?thesis by blast
qed

theorem parse_cwdh_data_triples_witness:
  "cwdh_start \<lparr> cwdh_start = 0, cwdh_end = 1, cwdh_size = 22, cwdh_data = [] \<rparr>
     \<le> cwdh_end \<lparr> cwdh_start = 0, cwdh_end = 1, cwdh_size = 22, cwdh_data = [] \<rparr>
   \<and> 3 * (cwdh_end \<lparr> cwdh_start = 0, cwdh_end = 1, cwdh_size = 22, cwdh_data = [] \<rparr>
          - cwdh_start \<lparr> cwdh_start = 0, cwdh_end = 1, cwdh_size = 22, cwdh_data = [] \<rparr> + 1)
     \<le> int (length [0xFF, 0xC8, 0x08, 0x01, 0x07, 0x09 :: byte])
   \<and> parse_cwdh_data \<lparr> cwdh_start = 0, cwdh_end = 1, cwdh_size = 22, cwdh_data = [] \<rparr>
        [0xFF, 0xC8, 0x08, 0x01, 0x07, 0x09]
      = Inr \<lparr> cwdh_start = 0, cwdh_end = 1, cwdh_size = 22,
              cwdh_data = [\<lparr> left = - 1, glyph = 200, char = 8 \<rparr>,
                           \<lparr> left = 1, glyph = 7, char = 9 \<rparr>] \<rparr>"
proof -
  have e: "parse_cwdh_data \<lparr> cwdh_start = 0, cwdh_end = 1, cwdh_size = 22, cwdh_data = [] \<rparr>
        [0xFF, 0xC8, 0x08, 0x01, 0x07, 0x09]
      = Inr \<lparr> cwdh_start = 0, cwdh_end = 1, cwdh_size = 22,
              cwdh_data = [\<lparr> left = - 1, glyph = 200, char = 8 \<rparr>,
                           \<lparr> left = 1, glyph = 7, char = 9 \<rparr>] \<rparr>"
    by code_simp
  show ?thesis
    using parse_cwdh_data_triples
      [of "\<lparr> cwdh_start = 0, cwdh_end = 1, cwdh_size = 22, cwdh_data = [] \<rparr>"
          "[0xFF, 0xC8, 0x08, 0x01, 0x07, 0x09]"] e
    by simp
qed

text \<open>
  The claim as written, with all three components signed, fails on the payload
  \<open>00 C8 C8\<close>: \<open>glyph\<close> and \<open>char\<close> are 200, outside \<open>[-128, 127]\<close>.
\<close>

theorem parse_cwdh_data_unsigned_counterexample:
  "parse_cwdh_data \<lparr> cwdh_start = 0, cwdh_end = 0, cwdh_size = 20, cwdh_data = [] \<rparr>
     [0x00, 0xC8, 0xC8]
   = Inr \<lparr> cwdh_start = 0, cwdh_end = 0, cwdh_size = 20,
           cwdh_data = [\<lparr> left = 0, glyph = 200, char = 200 \<rparr>] \<rparr>
   \<and> \<not> glyph \<lparr> left = 0, glyph = 200, char = 200 \<rparr> \<le> 127
   \<and> \<not> char \<lparr> left = 0, glyph = 200, char = 200 \<rparr> \<le> 127"
  by (simp add: parse_cwdh_data_def slice_def)

section \<open>Tile traversal\<close>

text \<open>
  The eight nested loops enumerate their index tuples in the order of the numbers
  \<open>0, 1, 2, ...\<close> written in mixed radix, so the list of visited pairs is a single \<open>map\<close>.
\<close>

lemma upt_block: "[0..<Suc n * a] = [0..<n * a] @ map (\<lambda>j. j + n * a) [0..<a]"
proof -
  have "[0..<Suc n * a] = [0..<n * a + a]" by (simp add: add.commute)
  also have "\<dots> = [0..<n * a] @ [n * a..<n * a + a]" by (rule upt_add_eq_append) simp
  also have "[n * a..<n * a + a] = map (\<lambda>j. j + n * a) [0..<a]"
    by (simp only: map_add_upt add.commute)
  finally show ?thesis .
qed

lemma concat_map_upt:
  "concat (map (\<lambda>i. map (F i) [0..<a]) [0..<n]) = map (\<lambda>p. F (p div a) (p mod a)) [0..<n * a]"
proof (induction n)
  case 0
  then show ?case by simp
next
  case (Suc n)
  have "map (\<lambda>p. F (p div a) (p mod a)) (map (\<lambda>j. j + n * a) [0..<a]) = map (F n) [0..<a]"
    by (simp add: comp_def)
  with Suc show ?case
    by (simp only: upt_block upt_Suc_append map_append concat_append concat.simps append_Nil2 le0
        if_True list.map)
qed

lemma concat_map_single: "concat (map (\<lambda>x. [f x]) xs) = map f xs"
  by (induction xs) auto

lemma loops_as_map:
  "visit_positions width height =
     map (\<lambda>p. 
       (p mod (width div 8 * 64) mod 64 mod 32 mod 16 mod 8 mod 4 mod 2
        + p mod (width div 8 * 64) mod 64 mod 32 mod 16 mod 8 div 4 * 2
        + p mod (width div 8 * 64) mod 64 mod 32 div 16 * 4
        + p mod (width div 8 * 64) div 64 * 8
        + (p mod (width div 8 * 64) mod 64 mod 32 mod 16 mod 8 mod 4 div 2
           + p mod (width div 8 * 64) mod 64 mod 32 mod 16 div 8 * 2
           + p mod (width div 8 * 64) mod 64 div 32 * 4
           + p div (width div 8 * 64) * 8) * width,
        p mod (width div 8 * 64) mod 64 mod 32 mod 16 mod 8 mod 4 mod 2
        + p mod (width div 8 * 64) mod 64 mod 32 mod 16 mod 8 div 4 * 4
        + p mod (width div 8 * 64) mod 64 mod 32 div 16 * 16
        + p mod (width div 8 * 64) div 64 * 64
        + (p mod (width div 8 * 64) mod 64 mod 32 mod 16 mod 8 mod 4 div 2 * 2
           + p mod (width div 8 * 64) mod 64 mod 32 mod 16 div 8 * 8
           + p mod (width div 8 * 64) mod 64 div 32 * 32
           + p div (width div 8 * 64) * width * 8)))
     [0..<height div 8 * (width div 8 * 64)]"
  apply (simp only: visit_positions_def concat_map_single)
  apply (simp only: concat_map_upt Let_def)
  apply (simp only: mult_2 [symmetric] numeral_times_numeral arith_simps)
  done

lemma morton_sum:
  "r mod 64 mod 32 mod 16 mod 8 mod 4 mod 2
   + r mod 64 mod 32 mod 16 mod 8 div 4 * 4
   + r mod 64 mod 32 div 16 * 16
   + r div 64 * 64
   + (r mod 64 mod 32 mod 16 mod 8 mod 4 div 2 * 2
      + r mod 64 mod 32 mod 16 div 8 * 8
      + r mod 64 div 32 * 32) = r" for r :: nat
  by presburger

lemma in_tile_all:
  "list_all (\<lambda>q. unswizzle_x q < 8 \<and> unswizzle_y q < 8
                \<and> swizzle (unswizzle_x q) (unswizzle_y q) = q
                \<and> q mod 32 mod 16 mod 8 mod 4 mod 2 + q mod 32 mod 16 mod 8 div 4 * 2
                    + q mod 32 div 16 * 4 = unswizzle_x q
                \<and> q mod 32 mod 16 mod 8 mod 4 div 2 + q mod 32 mod 16 div 8 * 2
                    + q div 32 * 4 = unswizzle_y q) [0..<64]"
  by code_simp

lemma in_tile:
  assumes "q < 64"
  shows "unswizzle_x q < 8" and "unswizzle_y q < 8"
    and "swizzle (unswizzle_x q) (unswizzle_y q) = q"
    and "q mod 32 mod 16 mod 8 mod 4 mod 2 + q mod 32 mod 16 mod 8 div 4 * 2
                    + q mod 32 div 16 * 4 = unswizzle_x q"
    and "q mod 32 mod 16 mod 8 mod 4 div 2 + q mod 32 mod 16 div 8 * 2
                    + q div 32 * 4 = unswizzle_y q"
  using in_tile_all assms by (simp_all add: list_all_iff)

lemma swizzle_all:
  "list_all (\<lambda>u. list_all (\<lambda>v. swizzle u v < 64 \<and> unswizzle_x (swizzle u v) = u
                                  \<and> unswizzle_y (swizzle u v) = v) [0..<8]) [0..<8]"
  by code_simp

lemma swizzle_inv:
  assumes "u < 8" "v < 8"
  shows "swizzle u v < 64" and "unswizzle_x (swizzle u v) = u" and "unswizzle_y (swizzle u v) = v"
  using swizzle_all assms by (simp_all add: list_all_iff)

lemma tile_split:
  fixes p tw :: nat
  shows "p mod (tw * 64) mod 64 = p mod 64"
    and "p mod (tw * 64) div 64 = p div 64 mod tw"
    and "p div (tw * 64) = p div 64 div tw"
proof -
  have e: "p mod (64 * tw) = 64 * (p div 64 mod tw) + p mod 64"
    by (rule mod_mult2_eq)
  have c: "tw * 64 = 64 * tw" by simp
  show "p mod (tw * 64) mod 64 = p mod 64"
    unfolding c e by simp
  show "p mod (tw * 64) div 64 = p div 64 mod tw"
    unfolding c e by simp
  show "p div (tw * 64) = p div 64 div tw"
    unfolding c by (rule div_mult2_eq)
qed

lemma loop_body_snd:
  fixes p tw :: nat
  shows "p mod (tw * 64) mod 64 mod 32 mod 16 mod 8 mod 4 mod 2
        + p mod (tw * 64) mod 64 mod 32 mod 16 mod 8 div 4 * 4
        + p mod (tw * 64) mod 64 mod 32 div 16 * 16
        + p mod (tw * 64) div 64 * 64
        + (p mod (tw * 64) mod 64 mod 32 mod 16 mod 8 mod 4 div 2 * 2
           + p mod (tw * 64) mod 64 mod 32 mod 16 div 8 * 8
           + p mod (tw * 64) mod 64 div 32 * 32
           + p div (tw * 64) * (8 * tw) * 8) = p"
proof -
  define r where "r = p mod (tw * 64)"
  define t where "t = p div (tw * 64) * (tw * 64)"
  have p: "p = r + t"
    by (simp only: r_def t_def mod_div_mult_eq)
  have t: "p div (tw * 64) * (8 * tw) * 8 = t" by (simp add: t_def)
  have "r mod 64 mod 32 mod 16 mod 8 mod 4 mod 2
        + r mod 64 mod 32 mod 16 mod 8 div 4 * 4
        + r mod 64 mod 32 div 16 * 16
        + r div 64 * 64
        + (r mod 64 mod 32 mod 16 mod 8 mod 4 div 2 * 2
           + r mod 64 mod 32 mod 16 div 8 * 8
           + r mod 64 div 32 * 32
           + t) = r + t"
    using morton_sum [of r] by (simp only: add.assoc [symmetric])
  then show ?thesis
    by (simp only: t r_def [symmetric] p [symmetric])
qed

lemma loop_body_fst:
  fixes p tw :: nat
  shows "p mod (tw * 64) mod 64 mod 32 mod 16 mod 8 mod 4 mod 2
        + p mod (tw * 64) mod 64 mod 32 mod 16 mod 8 div 4 * 2
        + p mod (tw * 64) mod 64 mod 32 div 16 * 4
        + p mod (tw * 64) div 64 * 8
        + (p mod (tw * 64) mod 64 mod 32 mod 16 mod 8 mod 4 div 2
           + p mod (tw * 64) mod 64 mod 32 mod 16 div 8 * 2
           + p mod (tw * 64) mod 64 div 32 * 4
           + p div (tw * 64) * 8) * (8 * tw)
        = (case pixel_of_offset (8 * tw) p of (x, y) \<Rightarrow> x + y * (8 * tw))"
proof -
  have tw: "8 * tw div 8 = tw" by simp
  have q: "p mod 64 < 64" by simp
  show ?thesis
    by (simp only: pixel_of_offset_def prod.case tw tile_split in_tile(4,5) [OF q])
qed

lemma visit_positions_closed_form:
  "visit_positions (8 * tw) height =
     map (\<lambda>p. (case pixel_of_offset (8 * tw) p of (x, y) \<Rightarrow> x + y * (8 * tw), p))
       [0..<height div 8 * (tw * 64)]"
proof -
  have tw: "8 * tw div 8 = tw" by simp
  show ?thesis
    by (simp only: loops_as_map tw loop_body_snd loop_body_fst)
qed


lemma tile_index:
  fixes tx ty tw :: nat
  assumes "tx < tw"
  shows "(tx + ty * tw) mod tw = tx" and "(tx + ty * tw) div tw = ty"
  using assms by simp_all

lemma tile_index_bound:
  fixes tx ty tw th :: nat
  assumes "tx < tw" "ty < th"
  shows "tx + ty * tw < tw * th"
proof -
  have "tx + ty * tw < tw + ty * tw" using assms(1) by simp
  also have "\<dots> = Suc ty * tw" by simp
  also have "\<dots> \<le> th * tw" using assms(2) by (intro mult_le_mono1) simp
  finally show ?thesis by (simp add: mult.commute)
qed

lemma offset_of_pixel_inverse:
  assumes "x < 8 * tw" "y < 8 * th"
  shows "offset_of_pixel (8 * tw) x y < (8 * tw) * (8 * th)"
    and "pixel_of_offset (8 * tw) (offset_of_pixel (8 * tw) x y) = (x, y)"
proof -
  define tx ty s where "tx = x div 8" and "ty = y div 8" and "s = swizzle (x mod 8) (y mod 8)"
  have tx: "tx < tw" and ty: "ty < th" using assms by (simp_all add: tx_def ty_def)
  have s: "s < 64" "unswizzle_x s = x mod 8" "unswizzle_y s = y mod 8"
    unfolding s_def by (simp_all add: swizzle_inv)
  have off: "offset_of_pixel (8 * tw) x y = s + (tx + ty * tw) * 64"
    by (simp add: offset_of_pixel_def tx_def ty_def s_def algebra_simps)
  have dm: "(s + k * 64) div 64 = k" "(s + k * 64) mod 64 = s" for k
    using s(1) by simp_all
  note d = dm(1) [of "tx + ty * tw"] and m = dm(2) [of "tx + ty * tw"]
  have "(tx + ty * tw) * 64 < tw * th * 64"
    using tile_index_bound [OF tx ty] by simp
  then show "offset_of_pixel (8 * tw) x y < (8 * tw) * (8 * th)"
    using s(1) tile_index_bound [OF tx ty] unfolding off by simp
  have tw: "8 * tw div 8 = tw" by simp
  show "pixel_of_offset (8 * tw) (offset_of_pixel (8 * tw) x y) = (x, y)"
    unfolding off pixel_of_offset_def tw d m tile_index [OF tx] s(2,3)
    by (simp add: tx_def ty_def)
qed

lemma pixel_of_offset_inverse:
  assumes "p < (8 * tw) * (8 * th)"
  shows "fst (pixel_of_offset (8 * tw) p) < 8 * tw"
    and "snd (pixel_of_offset (8 * tw) p) < 8 * th"
    and "offset_of_pixel (8 * tw) (fst (pixel_of_offset (8 * tw) p))
           (snd (pixel_of_offset (8 * tw) p)) = p"
proof -
  define q t tx ty where "q = p mod 64" and "t = p div 64" and "tx = t mod tw" and "ty = t div tw"
  have q: "q < 64" by (simp add: q_def)
  have t: "t < tw * th" using assms by (simp add: t_def less_mult_imp_div_less mult.commute)
  then have tw0: "0 < tw" by (cases tw) simp_all
  have tx: "tx < tw" using tw0 by (simp add: tx_def)
  have ty: "ty < th" using t by (simp add: ty_def less_mult_imp_div_less mult.commute)
  have tw: "8 * tw div 8 = tw" by simp
  have px: "fst (pixel_of_offset (8 * tw) p) = unswizzle_x q + tx * 8"
    and py: "snd (pixel_of_offset (8 * tw) p) = unswizzle_y q + ty * 8"
    by (simp_all add: pixel_of_offset_def tw q_def t_def tx_def ty_def)
  note b = in_tile(1,2,3) [OF q]
  show "fst (pixel_of_offset (8 * tw) p) < 8 * tw"
    unfolding px using b(1) tx by simp
  show "snd (pixel_of_offset (8 * tw) p) < 8 * th"
    unfolding py using b(2) ty by simp
  have mx: "(unswizzle_x q + tx * 8) mod 8 = unswizzle_x q"
    and dx: "(unswizzle_x q + tx * 8) div 8 = tx"
    and my: "(unswizzle_y q + ty * 8) mod 8 = unswizzle_y q"
    and dy: "(unswizzle_y q + ty * 8) div 8 = ty"
    using b(1,2) by simp_all
  have "tx + ty * tw = t" by (simp add: tx_def ty_def)
  then have "q + tx * 64 + ty * (8 * tw) * 8 = q + t * 64" by (simp add: algebra_simps)
  also have "\<dots> = p" by (simp add: q_def t_def)
  finally show "offset_of_pixel (8 * tw) (fst (pixel_of_offset (8 * tw) p))
           (snd (pixel_of_offset (8 * tw) p)) = p"
    unfolding px py offset_of_pixel_def mx dx my dy b(3) .
qed

lemma guard_passes:
  fixes p n :: nat
  assumes "p < n" "even n"
  shows "(p * format_size fmt) div 8 < (n * format_size fmt) div 8"
proof (cases fmt)
  case L4
  from assms have "p div 2 < n div 2" by (elim evenE) simp
  then show ?thesis using L4 by simp
next
  case A4
  from assms have "p div 2 < n div 2" by (elim evenE) simp
  then show ?thesis using A4 by simp
qed (use assms in simp_all)

text \<open>
  When every pair of the list is inside the two buffers, and the callback never shortens a
  buffer, neither guard of the loop body fires: the callback runs at every pair.
\<close>

lemma visit_loop_calls_every_pair:
  assumes grow: "\<And>b i s p b' s'. vistor fmt b i s p = Inr (b', s')
                   \<Longrightarrow> length b \<le> length b' \<and> length s \<le> length s'"
    and "\<forall>(bmp_pos, p) \<in> set ps. bmp_pos < n \<and> (p * format_size fmt) div 8 < m"
    and "n \<le> length bmp" "m \<le> length sheet_data"
  shows "visit_loop vistor fmt ps bmp sheet_data = call_at_each vistor fmt ps bmp sheet_data"
  using assms(2-4)
proof (induction ps arbitrary: bmp sheet_data)
  case Nil
  show ?case by simp
next
  case (Cons a ps)
  obtain i p where a: "a = (i, p)" by (cases a)
  from Cons.prems(1) have here: "i < n" "(p * format_size fmt) div 8 < m"
    and rest: "\<forall>(bmp_pos, p) \<in> set ps. bmp_pos < n \<and> (p * format_size fmt) div 8 < m"
    by (simp_all add: a)
  from here Cons.prems(2,3) have g: "\<not> length bmp \<le> i"
    "\<not> length sheet_data \<le> (p * format_size fmt) div 8" by simp_all
  show ?case
  proof (cases "vistor fmt bmp i sheet_data p")
    case (Inl e)
    then show ?thesis using g by (simp add: a)
  next
    case (Inr r)
    obtain b' s' where r: "r = (b', s')" by (cases r)
    from grow [OF Inr [unfolded r]] Cons.prems(2,3)
    have len: "n \<le> length b'" "m \<le> length s'" by simp_all
    show ?thesis
      using g Inr Cons.IH [OF rest len] by (simp add: a r)
  qed
qed

lemma sheet_to_bitmap_vistor_lengths:
  assumes "sheet_to_bitmap_vistor fmt b i s p = Inr (b', s')"
  shows "length b \<le> length b' \<and> length s \<le> length s'"
  using assms
  by (auto simp: sheet_to_bitmap_vistor_def split: sum.splits if_splits)

lemma bitmap_to_sheet_vistor_lengths:
  assumes "bitmap_to_sheet_vistor luma fmt0 fmt b i s p = Inr (b', s')"
  shows "length b \<le> length b' \<and> length s \<le> length s'"
  using assms
  by (auto simp: bitmap_to_sheet_vistor_def Let_def split: sum.splits if_splits)

text \<open>
  Claim C2, as the code has it. For a width and a height that are multiples of 8, the loops
  of \<open>visit_pixels\<close> pair every pixel \<open>(x, y)\<close> with \<open>x < width\<close> and \<open>y < height\<close>, at bitmap
  position \<open>x + y * width\<close>, with exactly one storage offset and every storage offset in
  \<open>[0, width * height)\<close> with exactly one pixel: the offsets come out as \<open>0, 1, 2, ...\<close> in
  the order of the loops, no bitmap position repeats, the pairs are those of
  \<open>offset_of_pixel\<close>, and \<open>pixel_of_offset\<close> inverts it. The offsets count pixels, not bytes.
  When the bitmap holds at least \<open>width * height\<close> pixels and the sheet buffer at least
  \<open>width * height * bpp // 8\<close> bytes, \<open>visit_pixels\<close> runs its callback at every one of these
  pairs, in that order, and skips none, for every callback that never shortens a buffer.
  The callbacks of \<open>_sheet_to_bitmap\<close> and \<open>_bitmap_to_sheet\<close> are such callbacks, and the two
  functions pass the width and the height of the sheet rounded up to powers of two: for a
  sheet whose width and height are such powers already, they run their callback at every
  pair.
\<close>

theorem visit_pixels_bijection:
  assumes "8 dvd width" "8 dvd height"
  shows "map snd (visit_positions width height) = [0..<width * height]
       \<and> distinct (map fst (visit_positions width height))
       \<and> set (visit_positions width height)
           = {(x + y * width, offset_of_pixel width x y) | x y. x < width \<and> y < height}
       \<and> (\<forall>x<width. \<forall>y<height.
             offset_of_pixel width x y < width * height
             \<and> pixel_of_offset width (offset_of_pixel width x y) = (x, y))
       \<and> (\<forall>p<width * height.
             fst (pixel_of_offset width p) < width \<and> snd (pixel_of_offset width p) < height
             \<and> offset_of_pixel width (fst (pixel_of_offset width p))
                  (snd (pixel_of_offset width p)) = p)
       \<and> (\<forall>(bmp_pos, sheet_data_pos) \<in> set (visit_positions width height). \<forall>fmt.
             bmp_pos < width * height
             \<and> (sheet_data_pos * format_size fmt) div 8 < (width * height * format_size fmt) div 8)
       \<and> (width * height \<le> length bmp
            \<and> (width * height * format_size fmt) div 8 \<le> length sheet_data
            \<and> (\<forall>b i s p b' s'. vistor fmt b i s p = Inr (b', s')
                  \<longrightarrow> length b \<le> length b' \<and> length s \<le> length s')
          \<longrightarrow> visit_pixels vistor width height fmt bmp sheet_data
                = call_at_each vistor fmt (visit_positions width height) bmp sheet_data)
       \<and> (round_up_pow2 width = Inr width \<and> round_up_pow2 height = Inr height
            \<and> (width * height * format_size fmt) div 8 \<le> length sheet
          \<longrightarrow> sheet_to_bitmap width height fmt sheet
                = (case call_at_each sheet_to_bitmap_vistor fmt (visit_positions width height)
                          (replicate (width * height) (0, 0, 0, 0)) sheet of
                     Inl e \<Rightarrow> Inl e
                   | Inr (bitmap, _) \<Rightarrow> Inr bitmap))
       \<and> (round_up_pow2 width = Inr width \<and> round_up_pow2 height = Inr height
            \<and> width * height \<le> length pixels
            \<and> (width * height * format_size fmt) div 8 \<le> nbytes
          \<longrightarrow> bitmap_to_sheet luma width height fmt nbytes pixels
                = (case call_at_each (bitmap_to_sheet_vistor luma fmt) fmt
                          (visit_positions width height) pixels (replicate nbytes 0) of
                     Inl e \<Rightarrow> Inl e
                   | Inr (_, out) \<Rightarrow> Inr out))"
proof -
  obtain tw where w: "width = 8 * tw" using assms(1) by (elim dvdE)
  obtain th where h: "height = 8 * th" using assms(2) by (elim dvdE)
  define N where "N = width * height"
  define bmp_of where "bmp_of p = (case pixel_of_offset width p of (x, y) \<Rightarrow> x + y * width)" for p
  have N: "height div 8 * (tw * 64) = N" by (simp add: N_def w h)
  have cf: "visit_positions width height = map (\<lambda>p. (bmp_of p, p)) [0..<N]"
    unfolding bmp_of_def w using visit_positions_closed_form [of tw height] N w by simp
  have inv1: "offset_of_pixel width x y < N \<and> pixel_of_offset width (offset_of_pixel width x y) = (x, y)"
    if "x < width" "y < height" for x y
    using offset_of_pixel_inverse [of x tw y th] that by (simp add: w h N_def)
  have inv2: "fst (pixel_of_offset width p) < width \<and> snd (pixel_of_offset width p) < height
             \<and> offset_of_pixel width (fst (pixel_of_offset width p))
                  (snd (pixel_of_offset width p)) = p"
    if "p < N" for p
    using pixel_of_offset_inverse [of p tw th] that by (simp add: w h N_def)
  have bmp_eq: "bmp_of p = fst (pixel_of_offset width p) + snd (pixel_of_offset width p) * width" for p
    by (simp add: bmp_of_def split: prod.split)
  have rt: "offset_of_pixel width (bmp_of p mod width) (bmp_of p div width) = p" if "p < N" for p
    using inv2 [OF that] by (simp add: bmp_eq)
  have bmp_bound: "bmp_of p < N" if "p < N" for p
  proof -
    from inv2 [OF that] have x: "fst (pixel_of_offset width p) < width"
      and y: "snd (pixel_of_offset width p) < height" by simp_all
    have "bmp_of p < width + snd (pixel_of_offset width p) * width" using x by (simp add: bmp_eq)
    also have "\<dots> = Suc (snd (pixel_of_offset width p)) * width" by simp
    also have "\<dots> \<le> height * width" using y by (intro mult_le_mono1) simp
    finally show ?thesis by (simp add: N_def mult.commute)
  qed
  have "inj_on bmp_of {0..<N}"
  proof (rule inj_onI)
    fix p p' assume "p \<in> {0..<N}" "p' \<in> {0..<N}" "bmp_of p = bmp_of p'"
    then have lt: "p < N" "p' < N" and e: "bmp_of p = bmp_of p'" by simp_all
    have "p = offset_of_pixel width (bmp_of p mod width) (bmp_of p div width)"
      by (rule rt [OF lt(1), symmetric])
    also have "\<dots> = offset_of_pixel width (bmp_of p' mod width) (bmp_of p' div width)"
      by (simp only: e)
    also have "\<dots> = p'" by (rule rt [OF lt(2)])
    finally show "p = p'" .
  qed
  then have c2: "distinct (map fst (visit_positions width height))"
    by (simp add: cf comp_def distinct_map)
  have c1: "map snd (visit_positions width height) = [0..<width * height]"
    by (simp add: cf comp_def N_def)
  have c3: "set (visit_positions width height)
           = {(x + y * width, offset_of_pixel width x y) | x y. x < width \<and> y < height}"
  proof (intro set_eqI iffI)
    fix e assume "e \<in> set (visit_positions width height)"
    then obtain p where p: "p < N" "e = (bmp_of p, p)" by (auto simp: cf)
    from inv2 [OF p(1)] have
      "e = (fst (pixel_of_offset width p) + snd (pixel_of_offset width p) * width,
            offset_of_pixel width (fst (pixel_of_offset width p)) (snd (pixel_of_offset width p)))"
      "fst (pixel_of_offset width p) < width" "snd (pixel_of_offset width p) < height"
      by (simp_all add: p(2) bmp_eq)
    then show
      "e \<in> {(x + y * width, offset_of_pixel width x y) | x y. x < width \<and> y < height}"
      by blast
  next
    fix e assume "e \<in> {(x + y * width, offset_of_pixel width x y) | x y. x < width \<and> y < height}"
    then obtain x y where xy: "x < width" "y < height"
      "e = (x + y * width, offset_of_pixel width x y)" by blast
    from inv1 [OF xy(1,2)] have "offset_of_pixel width x y < N"
      "bmp_of (offset_of_pixel width x y) = x + y * width" by (simp_all add: bmp_eq)
    then show "e \<in> set (visit_positions width height)"
      unfolding cf xy(3) by (auto simp: image_iff)
  qed
  have evenN: "even N" by (simp add: N_def w)
  have c6: "\<forall>(bmp_pos, sheet_data_pos) \<in> set (visit_positions width height). \<forall>fmt.
             bmp_pos < width * height
             \<and> (sheet_data_pos * format_size fmt) div 8 < (width * height * format_size fmt) div 8"
    using bmp_bound guard_passes [OF _ evenN] by (auto simp: cf N_def)
  have inside: "\<forall>(bmp_pos, p) \<in> set (visit_positions width height).
             bmp_pos < width * height
             \<and> (p * format_size f) div 8 < (width * height * format_size f) div 8" for f
    using c6 by blast
  have c7: "visit_pixels v width height f bm sd
                = call_at_each v f (visit_positions width height) bm sd"
    if "width * height \<le> length bm" "(width * height * format_size f) div 8 \<le> length sd"
      "\<And>b i s p b' s'. v f b i s p = Inr (b', s')
         \<Longrightarrow> length b \<le> length b' \<and> length s \<le> length s'"
    for v :: "format \<Rightarrow> 'x list \<Rightarrow> nat \<Rightarrow> 'y list \<Rightarrow> nat \<Rightarrow> error + ('x list \<times> 'y list)"
      and f bm sd
    unfolding visit_pixels_def
    by (rule visit_loop_calls_every_pair [OF that(3) inside that(1,2)])
  have c8: "sheet_to_bitmap width height fmt sheet
                = (case call_at_each sheet_to_bitmap_vistor fmt (visit_positions width height)
                          (replicate (width * height) (0, 0, 0, 0)) sheet of
                     Inl e \<Rightarrow> Inl e
                   | Inr (bitmap, _) \<Rightarrow> Inr bitmap)"
    if "round_up_pow2 width = Inr width" "round_up_pow2 height = Inr height"
      "(width * height * format_size fmt) div 8 \<le> length sheet"
  proof -
    have "visit_pixels sheet_to_bitmap_vistor width height fmt
            (replicate (width * height) (0, 0, 0, 0)) sheet
          = call_at_each sheet_to_bitmap_vistor fmt (visit_positions width height)
              (replicate (width * height) (0, 0, 0, 0)) sheet"
      by (rule c7 [OF _ that(3) sheet_to_bitmap_vistor_lengths]) simp_all
    then show ?thesis
      by (simp only: sheet_to_bitmap_def that(1,2) sum.case)
  qed
  have c9: "bitmap_to_sheet luma width height fmt nbytes pixels
                = (case call_at_each (bitmap_to_sheet_vistor luma fmt) fmt
                          (visit_positions width height) pixels (replicate nbytes 0) of
                     Inl e \<Rightarrow> Inl e
                   | Inr (_, out) \<Rightarrow> Inr out)"
    if "round_up_pow2 width = Inr width" "round_up_pow2 height = Inr height"
      "width * height \<le> length pixels" "(width * height * format_size fmt) div 8 \<le> nbytes"
  proof -
    have "visit_pixels (bitmap_to_sheet_vistor luma fmt) width height fmt pixels
            (replicate nbytes 0)
          = call_at_each (bitmap_to_sheet_vistor luma fmt) fmt (visit_positions width height)
              pixels (replicate nbytes 0)"
      by (rule c7 [OF that(3) _ bitmap_to_sheet_vistor_lengths]) (simp_all add: that(4))
    then show ?thesis
      by (simp only: bitmap_to_sheet_def that(1,2) sum.case)
  qed
  have c7': "width * height \<le> length bmp
            \<and> (width * height * format_size fmt) div 8 \<le> length sheet_data
            \<and> (\<forall>b i s p b' s'. vistor fmt b i s p = Inr (b', s')
                  \<longrightarrow> length b \<le> length b' \<and> length s \<le> length s')
          \<longrightarrow> visit_pixels vistor width height fmt bmp sheet_data
                = call_at_each vistor fmt (visit_positions width height) bmp sheet_data"
    using c7 [of bmp fmt sheet_data vistor] by blast
  have c16: "map snd (visit_positions width height) = [0..<width * height]
       \<and> distinct (map fst (visit_positions width height))
       \<and> set (visit_positions width height)
           = {(x + y * width, offset_of_pixel width x y) | x y. x < width \<and> y < height}
       \<and> (\<forall>x<width. \<forall>y<height.
             offset_of_pixel width x y < width * height
             \<and> pixel_of_offset width (offset_of_pixel width x y) = (x, y))
       \<and> (\<forall>p<width * height.
             fst (pixel_of_offset width p) < width \<and> snd (pixel_of_offset width p) < height
             \<and> offset_of_pixel width (fst (pixel_of_offset width p))
                  (snd (pixel_of_offset width p)) = p)
       \<and> (\<forall>(bmp_pos, sheet_data_pos) \<in> set (visit_positions width height). \<forall>fmt.
             bmp_pos < width * height
             \<and> (sheet_data_pos * format_size fmt) div 8 < (width * height * format_size fmt) div 8)"
    using c1 c2 c3 c6 inv1 inv2 unfolding N_def by blast
  from c8 c9 have c89: "(round_up_pow2 width = Inr width \<and> round_up_pow2 height = Inr height
            \<and> (width * height * format_size fmt) div 8 \<le> length sheet
          \<longrightarrow> sheet_to_bitmap width height fmt sheet
                = (case call_at_each sheet_to_bitmap_vistor fmt (visit_positions width height)
                          (replicate (width * height) (0, 0, 0, 0)) sheet of
                     Inl e \<Rightarrow> Inl e
                   | Inr (bitmap, _) \<Rightarrow> Inr bitmap))
       \<and> (round_up_pow2 width = Inr width \<and> round_up_pow2 height = Inr height
            \<and> width * height \<le> length pixels
            \<and> (width * height * format_size fmt) div 8 \<le> nbytes
          \<longrightarrow> bitmap_to_sheet luma width height fmt nbytes pixels
                = (case call_at_each (bitmap_to_sheet_vistor luma fmt) fmt
                          (visit_positions width height) pixels (replicate nbytes 0) of
                     Inl e \<Rightarrow> Inl e
                   | Inr (_, out) \<Rightarrow> Inr out))"
    by blast
  from c16 c7' c89 show ?thesis by (intro conjI) (elim conjE, assumption)+
qed

theorem visit_pixels_bijection_witness:
  "(8 :: nat) dvd 16 \<and> (8 :: nat) dvd 8
   \<and> map snd (visit_positions 16 8) = [0..<128]
   \<and> distinct (map fst (visit_positions 16 8))
   \<and> offset_of_pixel 16 9 5 = 99 \<and> pixel_of_offset 16 99 = (9, 5)
   \<and> round_up_pow2 16 = Inr 16 \<and> round_up_pow2 8 = Inr 8
   \<and> (16 * 8 * format_size RGBA8) div 8 \<le> length (replicate 512 (7 :: byte))
   \<and> visit_pixels sheet_to_bitmap_vistor 16 8 RGBA8 (replicate 128 (0, 0, 0, 0)) (replicate 512 7)
       = call_at_each sheet_to_bitmap_vistor RGBA8 (visit_positions 16 8)
           (replicate 128 (0, 0, 0, 0)) (replicate 512 7)
   \<and> sheet_to_bitmap 16 8 RGBA8 (replicate 512 7)
       = (case call_at_each sheet_to_bitmap_vistor RGBA8 (visit_positions 16 8)
                 (replicate (16 * 8) (0, 0, 0, 0)) (replicate 512 7) of
            Inl e \<Rightarrow> Inl e
          | Inr (bitmap, _) \<Rightarrow> Inr bitmap)
   \<and> 16 * 8 \<le> length (replicate 128 ((1, 2, 3, 4) :: pixel))
   \<and> bitmap_to_sheet (\<lambda>r g b. 0) 16 8 RGBA8 512 (replicate 128 (1, 2, 3, 4))
       = (case call_at_each (bitmap_to_sheet_vistor (\<lambda>r g b. 0) RGBA8) RGBA8
                 (visit_positions 16 8) (replicate 128 (1, 2, 3, 4)) (replicate 512 0) of
            Inl e \<Rightarrow> Inl e
          | Inr (_, out) \<Rightarrow> Inr out)"
proof -
  have e: "offset_of_pixel 16 9 5 = 99" "pixel_of_offset 16 99 = (9, 5)"
    by (simp_all add: offset_of_pixel_def pixel_of_offset_def swizzle_def unswizzle_x_def
        unswizzle_y_def)
  have r: "round_up_pow2 16 = Inr 16" "round_up_pow2 8 = Inr 8" by code_simp+
  have l: "(16 * 8 * format_size RGBA8) div 8 \<le> length (replicate 512 (7 :: byte))"
    "16 * 8 \<le> length (replicate 128 ((0, 0, 0, 0) :: pixel))" by simp_all
  have l': "16 * 8 \<le> length (replicate 128 ((1, 2, 3, 4) :: pixel))"
    "(16 * 8 * format_size RGBA8) div 8 \<le> 512" by simp_all
  have g: "\<forall>b i s p b' s'. sheet_to_bitmap_vistor RGBA8 b i s p = Inr (b', s')
                  \<longrightarrow> length b \<le> length b' \<and> length s \<le> length s'"
    using sheet_to_bitmap_vistor_lengths by blast
  note t = visit_pixels_bijection [where width = 16 and height = 8
      and bmp = "replicate 128 (0, 0, 0, 0)" and fmt = RGBA8 and sheet_data = "replicate 512 7"
      and vistor = sheet_to_bitmap_vistor and sheet = "replicate 512 7"
      and pixels = "replicate 128 (1, 2, 3, 4)" and nbytes = 512 and luma = "\<lambda>r g b. 0"]
  have d: "(8 :: nat) dvd 16" "(8 :: nat) dvd 8" by simp_all
  from t [OF d] have a: "map snd (visit_positions 16 8) = [0..<16 * 8]"
    and b: "distinct (map fst (visit_positions 16 8))" by blast+
  from t [OF d] l g have c:
    "visit_pixels sheet_to_bitmap_vistor 16 8 RGBA8 (replicate 128 (0, 0, 0, 0)) (replicate 512 7)
       = call_at_each sheet_to_bitmap_vistor RGBA8 (visit_positions 16 8)
           (replicate 128 (0, 0, 0, 0)) (replicate 512 7)"
    by blast
  from t [OF d] r l(1) have s:
    "sheet_to_bitmap 16 8 RGBA8 (replicate 512 7)
       = (case call_at_each sheet_to_bitmap_vistor RGBA8 (visit_positions 16 8)
                 (replicate (16 * 8) (0, 0, 0, 0)) (replicate 512 7) of
            Inl e \<Rightarrow> Inl e
          | Inr (bitmap, _) \<Rightarrow> Inr bitmap)"
    by blast
  from t [OF d] r l' have w:
    "bitmap_to_sheet (\<lambda>r g b. 0) 16 8 RGBA8 512 (replicate 128 (1, 2, 3, 4))
       = (case call_at_each (bitmap_to_sheet_vistor (\<lambda>r g b. 0) RGBA8) RGBA8
                 (visit_positions 16 8) (replicate 128 (1, 2, 3, 4)) (replicate 512 0) of
            Inl e \<Rightarrow> Inl e
          | Inr (_, out) \<Rightarrow> Inr out)"
    by blast
  have a': "map snd (visit_positions 16 8) = [0..<128]" using a by simp
  from d a' b e r l(1) c s l'(1) w show ?thesis by (intro conjI)
qed

text \<open>
  The claim as written, with offsets filling \<open>[0, width * height * bpp / 8)\<close>, fails either
  way the offsets are read. As the traversal computes them, the offsets of an 8 by 8 RGBA8
  sheet are \<open>0..63\<close> while the range of the claim is \<open>[0, 256)\<close>: offset 64 is never visited.
  As byte positions \<open>offset * bpp // 8\<close>, the first two pixels of an 8 by 8 A4 sheet both
  fall on byte 0. And the width is that of the sheet only when it is a power of two: a sheet
  of 24 by 16 pixels is traversed with a width of 32, so that its pixel \<open>(16, 8)\<close> is paired
  with offset 384, one past the 384 pixels of the sheet, and is skipped by the guard, while
  offset 192 goes to the pixel \<open>(24, 0)\<close> outside the sheet.
\<close>

theorem visit_pixels_byte_range_counterexample:
  "(64 :: nat) < 8 * 8 * format_size RGBA8 div 8
   \<and> 64 \<notin> set (map snd (visit_positions 8 8))
   \<and> map (\<lambda>(bmp_pos, sheet_data_pos). sheet_data_pos * format_size A4 div 8)
        (take 2 (visit_positions 8 8)) = [0, 0]
   \<and> round_up_pow2 24 = Inr 32 \<and> round_up_pow2 16 = Inr 16
   \<and> (16 + 8 * 32, 384) \<in> set (visit_positions 32 16)
   \<and> 24 * 16 * format_size A8 div 8 \<le> 384 * format_size A8 div 8
   \<and> (24 + 0 * 32, 192) \<in> set (visit_positions 32 16)"
proof -
  have a: "(64 :: nat) < 8 * 8 * format_size RGBA8 div 8
   \<and> 64 \<notin> set (map snd (visit_positions 8 8))
   \<and> map (\<lambda>(bmp_pos, sheet_data_pos). sheet_data_pos * format_size A4 div 8)
        (take 2 (visit_positions 8 8)) = [0, 0]"
    by code_simp
  have r: "round_up_pow2 24 = Inr 32" "round_up_pow2 16 = Inr 16" by code_simp+
  have cf: "visit_positions 32 16 =
     map (\<lambda>p. (case pixel_of_offset 32 p of (x, y) \<Rightarrow> x + y * 32, p)) [0..<512]"
    using visit_positions_closed_form [of 4 16] by simp
  have p: "pixel_of_offset 32 384 = (16, 8)" "pixel_of_offset 32 192 = (24, 0)"
    by (simp_all add: pixel_of_offset_def unswizzle_x_def unswizzle_y_def)
  have m: "(16 + 8 * 32, 384) \<in> set (visit_positions 32 16)"
    "(24 + 0 * 32, 192) \<in> set (visit_positions 32 16)"
    unfolding cf using p by (simp_all add: image_iff)
  have g: "24 * 16 * format_size A8 div 8 \<le> 384 * format_size A8 div 8" by simp
  from a r m g show ?thesis by (intro conjI) (elim conjE, assumption)+
qed


section \<open>Reading a container\<close>

text \<open>
  The two header parsers of the chained sections treat a wrong magic differently:
  \<open>_parse_cwdh_header\<close> sets \<open>invalid\<close> and returns \<open>None\<close>; \<open>_parse_cmap_header\<close> leaves the
  object as it is, appends the section and returns the next offset.
\<close>

lemma parse_cwdh_header_wrong_magic:
  assumes "unpack_header (the (order self)) CWDH_HEADER_STRUCT data = Inr (magic, f)"
    and "magic \<noteq> CWDH_HEADER_MAGIC"
  shows "parse_cwdh_header (cls, self) data = Inr ((cls, self\<lparr>invalid := True\<rparr>), None)"
  using assms by (simp add: parse_cwdh_header_def)

lemma parse_cmap_header_wrong_magic:
  assumes "unpack_header (the (order self)) CMAP_HEADER_STRUCT data = Inr (magic, f)"
    and "magic \<noteq> CMAP_HEADER_MAGIC" and "\<not> debug self"
  shows "parse_cmap_header (cls, self) data =
           Inr ((cls\<lparr>cmap_sections := cmap_sections cls @
                   [\<lparr> cmap_size = f ! 0, cmap_start = f ! 1, cmap_end = f ! 2,
                      cmap_type = f ! 3, indexOffset = None, indexTable = None,
                      entries = None \<rparr>]\<rparr>, self), f ! 5)"
  using assms by (simp add: parse_cmap_header_def)

lemma parse_cmap_header_keeps_self:
  assumes "parse_cmap_header (cls, self) data = Inr ((cls', self'), nxt)"
  shows "self' = self" and "length (cmap_sections cls') = Suc (length (cmap_sections cls))"
  using assms
  by (auto simp: parse_cmap_header_def split: sum.splits prod.splits if_splits)

text \<open>
  Claim C3. A magic mismatch in any section header, the header of a CMAP range included,
  aborts the parse and marks the container invalid. For the CMAP header the code does not:
  in the container \<open>container_bad_cmap_magic\<close> the CMAP section starts with \<open>XMAP\<close>, and
  \<open>read\<close> returns with \<open>invalid\<close> still \<open>False\<close> and the section, payload and all, in
  \<open>cmap_sections\<close>.
\<close>

theorem read_accepts_wrong_cmap_magic:
  "map_option (map_sum id (\<lambda>(cls, self). (invalid self, cmap_sections cls)))
     (read empty_class (new_Bffnt False) container_bad_cmap_magic)
   = Some (Inr (False, [\<lparr> cmap_size = 24, cmap_start = 65, cmap_end = 65, cmap_type = 0,
                          indexOffset = Some 0, indexTable = None, entries = None \<rparr>]))
   \<and> slice container_bad_cmap_magic 104 108 = [0x58, 0x4D, 0x41, 0x50]
   \<and> CMAP_HEADER_MAGIC = [0x43, 0x4D, 0x41, 0x50]"
  by code_simp

text \<open>
  Whatever the lists of the class hold when \<open>read\<close> starts is still there, in front, when
  it returns: the loops only append.
\<close>

lemma parse_cwdh_header_appends:
  assumes "parse_cwdh_header st data = Inr (st1, r)"
  shows "cmap_sections (fst st1) = cmap_sections (fst st)"
    and "r = None \<Longrightarrow> cwdh_sections (fst st1) = cwdh_sections (fst st)"
    and "r \<noteq> None \<Longrightarrow> \<exists>x. cwdh_sections (fst st1) = cwdh_sections (fst st) @ [x]"
  using assms
  by (auto simp: parse_cwdh_header_def split: prod.splits sum.splits if_splits)

lemma cwdh_loop_keeps_earlier_sections:
  assumes "cwdh_loop data st c = Some y"
  shows "\<forall>fl. y = Inr fl \<longrightarrow>
           (\<exists>ws. cwdh_sections (fst (flow_state fl)) = cwdh_sections (fst st) @ ws)
           \<and> cmap_sections (fst (flow_state fl)) = cmap_sections (fst st)"
proof (rule cwdh_loop.raw_induct
    [where P = "\<lambda>data st c y. \<forall>fl. y = Inr fl \<longrightarrow>
           (\<exists>ws. cwdh_sections (fst (flow_state fl)) = cwdh_sections (fst st) @ ws)
           \<and> cmap_sections (fst (flow_state fl)) = cmap_sections (fst st)", OF _ assms],
    goal_cases)
  case (1 f data st c y)
  show ?case
  proof (intro allI impI)
    fix fl assume y: "y = Inr fl"
    show "(\<exists>ws. cwdh_sections (fst (flow_state fl)) = cwdh_sections (fst st) @ ws)
           \<and> cmap_sections (fst (flow_state fl)) = cmap_sections (fst st)"
    proof (cases "0 < c")
      case False
      with 1(2) y show ?thesis by (auto simp: flow_state_def)
    next
      case True
      let ?h = "parse_cwdh_header st (py_slice data (c - 8) (c - 8 + CWDH_HEADER_SIZE))"
      from 1(2) True y obtain st1 r where h: "?h = Inr (st1, r)"
        by (cases ?h) (auto simp: Let_def)
      note a = parse_cwdh_header_appends [OF h]
      show ?thesis
      proof (cases r)
        case None
        with 1(2) True y h a show ?thesis by (auto simp: Let_def flow_state_def)
      next
        case (Some c')
        with a(3) obtain x where x: "cwdh_sections (fst st1) = cwdh_sections (fst st) @ [x]"
          by auto
        let ?d = "parse_cwdh_data (last (cwdh_sections (fst st1)))
                    (py_slice data (c - 8 + CWDH_HEADER_SIZE)
                       (c - 8 + CWDH_HEADER_SIZE + cwdh_size (last (cwdh_sections (fst st1)))
                          - CWDH_HEADER_SIZE))"
        from 1(2) True y h Some obtain info' where d: "?d = Inr info'"
          by (cases ?d) (auto simp: Let_def)
        let ?st2 = "((fst st1)\<lparr>cwdh_sections := butlast (cwdh_sections (fst st1)) @ [info']\<rparr>,
                     snd st1)"
        from 1(2) True h Some d have "f data ?st2 c' = Some y" by (simp add: Let_def)
        from 1(1) [OF this] y obtain ws where
          "cwdh_sections (fst (flow_state fl)) = cwdh_sections (fst ?st2) @ ws"
          "cmap_sections (fst (flow_state fl)) = cmap_sections (fst ?st2)" by blast
        with x a(1) show ?thesis by simp
      qed
    qed
  qed
qed

lemma parse_cmap_header_appends:
  assumes "parse_cmap_header st data = Inr (st1, r)"
  shows "cwdh_sections (fst st1) = cwdh_sections (fst st)"
    and "\<exists>x. cmap_sections (fst st1) = cmap_sections (fst st) @ [x]"
  using assms
  by (auto simp: parse_cmap_header_def split: prod.splits sum.splits if_splits)

lemma cmap_loop_keeps_earlier_sections:
  assumes "cmap_loop data st c = Some y"
  shows "\<forall>fl. y = Inr fl \<longrightarrow>
           (\<exists>ms. cmap_sections (fst (flow_state fl)) = cmap_sections (fst st) @ ms)
           \<and> cwdh_sections (fst (flow_state fl)) = cwdh_sections (fst st)"
proof (rule cmap_loop.raw_induct
    [where P = "\<lambda>data st c y. \<forall>fl. y = Inr fl \<longrightarrow>
           (\<exists>ms. cmap_sections (fst (flow_state fl)) = cmap_sections (fst st) @ ms)
           \<and> cwdh_sections (fst (flow_state fl)) = cwdh_sections (fst st)", OF _ assms],
    goal_cases)
  case (1 f data st c y)
  show ?case
  proof (intro allI impI)
    fix fl assume y: "y = Inr fl"
    show "(\<exists>ms. cmap_sections (fst (flow_state fl)) = cmap_sections (fst st) @ ms)
           \<and> cwdh_sections (fst (flow_state fl)) = cwdh_sections (fst st)"
    proof (cases "0 < c")
      case False
      with 1(2) y show ?thesis by (auto simp: flow_state_def)
    next
      case True
      let ?h = "parse_cmap_header st (py_slice data (c - 8) (c - 8 + CMAP_HEADER_SIZE))"
      from 1(2) True y obtain st1 c' where h: "?h = Inr (st1, c')"
        by (cases ?h) (auto simp: Let_def)
      note a = parse_cmap_header_appends [OF h]
      from a(2) obtain x where x: "cmap_sections (fst st1) = cmap_sections (fst st) @ [x]"
        by auto
      show ?thesis
      proof (cases "invalid (snd st1)")
        case True
        with 1(2) \<open>0 < c\<close> y h a x show ?thesis by (auto simp: Let_def flow_state_def)
      next
        case False
        let ?d = "parse_cmap_data (the (order (snd st1))) (last (cmap_sections (fst st1)))
                    (py_slice data (c - 8 + CMAP_HEADER_SIZE)
                       (c - 8 + CMAP_HEADER_SIZE + cmap_size (last (cmap_sections (fst st1)))
                          - CMAP_HEADER_SIZE))"
        from 1(2) True y h False obtain info' where d: "?d = Inr info'"
          by (cases ?d) (auto simp: Let_def)
        let ?st2 = "((fst st1)\<lparr>cmap_sections := butlast (cmap_sections (fst st1)) @ [info']\<rparr>,
                     snd st1)"
        from 1(2) True h False d have "f data ?st2 c' = Some y" by (simp add: Let_def)
        from 1(1) [OF this] y obtain ms where
          "cmap_sections (fst (flow_state fl)) = cmap_sections (fst ?st2) @ ms"
          "cwdh_sections (fst (flow_state fl)) = cwdh_sections (fst ?st2)" by blast
        with x a(1) show ?thesis by simp
      qed
    qed
  qed
qed

lemma read_keeps_earlier_sections:
  assumes "read cls self data = Some (Inr (cls', self'))"
  shows "\<exists>ws ms. cwdh_sections cls' = cwdh_sections cls @ ws
                 \<and> cmap_sections cls' = cmap_sections cls @ ms"
proof -
  have triv: "\<exists>ws ms. cwdh_sections cls = cwdh_sections cls @ ws
                 \<and> cmap_sections cls = cmap_sections cls @ ms" by simp
  show ?thesis
  proof (cases "cls' = cls")
    case True
    with triv show ?thesis by simp
  next
    case False
    from assms False obtain s3 y1 where
      l1: "cwdh_loop data (cls, s3) (cwdh_offset s3) = Some (Inr y1)"
      and r1: "(\<exists>st. y1 = Return st \<and> fst st = cls')
               \<or> (\<exists>st y2. y1 = Next st \<and> cmap_loop data st (cmap_offset (snd st)) = Some (Inr y2)
                     \<and> fst (flow_state y2) = cls')"
      by (auto simp: read_def Let_def flow_state_def
          split: sum.splits if_splits option.splits flow.splits prod.splits)
    from cwdh_loop_keeps_earlier_sections [OF l1] obtain ws where
      w: "cwdh_sections (fst (flow_state y1)) = cwdh_sections cls @ ws"
         "cmap_sections (fst (flow_state y1)) = cmap_sections cls" by auto
    from r1 show ?thesis
    proof
      assume "\<exists>st. y1 = Return st \<and> fst st = cls'"
      with w show ?thesis by (auto simp: flow_state_def)
    next
      assume "\<exists>st y2. y1 = Next st \<and> cmap_loop data st (cmap_offset (snd st)) = Some (Inr y2)
                     \<and> fst (flow_state y2) = cls'"
      then obtain st y2 where y1: "y1 = Next st"
        and l2: "cmap_loop data st (cmap_offset (snd st)) = Some (Inr y2)"
        and c: "fst (flow_state y2) = cls'" by blast
      from cmap_loop_keeps_earlier_sections [OF l2] obtain ms where
        "cmap_sections (fst (flow_state y2)) = cmap_sections (fst st) @ ms"
        "cwdh_sections (fst (flow_state y2)) = cwdh_sections (fst st)" by auto
      with w y1 c show ?thesis by (auto simp: flow_state_def)
    qed
  qed
qed

text \<open>
  Claim C10. Reading the same bytes with two separately constructed objects yields the same
  section lists, and a read on a new object does not depend on an earlier read. In the code
  both objects append to the lists of the class (lemma \<open>read_keeps_earlier_sections\<close>):
  after the second read of \<open>container_ok\<close> each list holds every section twice, although
  the two objects end up equal.
\<close>

theorem second_read_sees_first_reads_sections:
  "(case read empty_class (new_Bffnt False) container_ok of
      Some (Inr (cls1, self1)) \<Rightarrow>
        (case read cls1 (new_Bffnt False) container_ok of
           Some (Inr (cls2, self2)) \<Rightarrow>
             self2 = self1
             \<and> length (cwdh_sections cls1) = 1 \<and> length (cmap_sections cls1) = 1
             \<and> cwdh_sections cls2 = cwdh_sections cls1 @ cwdh_sections cls1
             \<and> cmap_sections cls2 = cmap_sections cls1 @ cmap_sections cls1
         | _ \<Rightarrow> False)
    | _ \<Rightarrow> False)"
  by code_simp

text \<open>
  One iteration of the CWDH loop on \<open>container_cwdh_cycle\<close>, from any state of a
  little-endian object: the section at 92 is appended and the next offset is 92 again.
\<close>

lemma cycle_header:
  assumes "order self = Some LittleEndian"
  shows "parse_cwdh_header (cls, self) (py_slice container_cwdh_cycle 84 100)
     = Inr ((cls\<lparr>cwdh_sections := cwdh_sections cls @
                  [\<lparr> cwdh_start = 0, cwdh_end = 0, cwdh_size = 20, cwdh_data = [] \<rparr>]\<rparr>, self),
            Some 92)"
proof -
  have s: "py_slice container_cwdh_cycle 84 100
      = [0x43, 0x57, 0x44, 0x48, 0x14, 0, 0, 0, 0, 0, 0, 0, 0x5C, 0, 0, 0]"
    by code_simp
  have u: "unpack_header LittleEndian CWDH_HEADER_STRUCT
       [0x43, 0x57, 0x44, 0x48, 0x14, 0, 0, 0, 0, 0, 0, 0, 0x5C, 0, 0, 0]
     = Inr ([0x43, 0x57, 0x44, 0x48], [20, 0, 0, 92])"
    by code_simp
  show ?thesis
    unfolding s by (simp add: parse_cwdh_header_def assms u CWDH_HEADER_MAGIC_def)
qed

lemma cycle_data:
  "parse_cwdh_data \<lparr> cwdh_start = 0, cwdh_end = 0, cwdh_size = 20, cwdh_data = [] \<rparr>
     (py_slice container_cwdh_cycle 100 104)
   = Inr \<lparr> cwdh_start = 0, cwdh_end = 0, cwdh_size = 20,
           cwdh_data = [\<lparr> left = 0, glyph = 8, char = 8 \<rparr>] \<rparr>"
  by code_simp

lemma cwdh_cycle_never_returns:
  assumes "cwdh_loop data st c = Some y"
  shows "\<not> (data = container_cwdh_cycle \<and> c = 92 \<and> order (snd st) = Some LittleEndian)"
proof (rule cwdh_loop.raw_induct
    [where P = "\<lambda>data st c y. \<not> (data = container_cwdh_cycle \<and> c = 92
                                 \<and> order (snd st) = Some LittleEndian)", OF _ assms],
    goal_cases)
  case (1 f data st c y)
  show ?case
  proof
    assume a: "data = container_cwdh_cycle \<and> c = 92 \<and> order (snd st) = Some LittleEndian"
    obtain cls self where st: "st = (cls, self)" by (cases st)
    from a st have o: "order self = Some LittleEndian" by simp
    let ?st' = "(cls\<lparr>cwdh_sections := cwdh_sections cls @
                  [\<lparr> cwdh_start = 0, cwdh_end = 0, cwdh_size = 20,
                     cwdh_data = [\<lparr> left = 0, glyph = 8, char = 8 \<rparr>] \<rparr>]\<rparr>, self)"
    from 1(2) a have "f container_cwdh_cycle ?st' 92 = Some y"
      by (simp add: st Let_def CWDH_HEADER_SIZE_def cycle_header [OF o] cycle_data)
    from 1(1) [OF this] o show False by simp
  qed
qed

lemma cwdh_cycle_diverges:
  "order (snd st) = Some LittleEndian \<Longrightarrow> cwdh_loop container_cwdh_cycle st 92 = None"
  using cwdh_cycle_never_returns [of container_cwdh_cycle st 92]
  by (cases "cwdh_loop container_cwdh_cycle st 92") auto

text \<open>
  The next offset that the parsers hand to the loops is the next-offset field of the
  header in the file.
\<close>

lemma cwdh_header_fields:
  assumes "unpack_header ord CWDH_HEADER_STRUCT h = Inr (m, f)"
  shows "length h = 16" and "m = take 4 h" and "f ! 3 = unpack_uint ord (drop 12 h)"
  using assms
  by (auto simp: unpack_header_def CWDH_HEADER_STRUCT_def split: if_splits)

lemma cwdh_header_short:
  assumes "unpack_header ord CWDH_HEADER_STRUCT h = Inl e"
  shows "length h \<noteq> 16"
  using assms by (auto simp: unpack_header_def CWDH_HEADER_STRUCT_def split: if_splits)

lemma cmap_header_fields:
  assumes "unpack_header ord CMAP_HEADER_STRUCT h = Inr (m, f)"
  shows "length h = 20" and "m = take 4 h" and "f ! 5 = unpack_uint ord (drop 16 h)"
  using assms
  by (auto simp: unpack_header_def CMAP_HEADER_STRUCT_def split: if_splits)

lemma cmap_header_short:
  assumes "unpack_header ord CMAP_HEADER_STRUCT h = Inl e"
  shows "length h \<noteq> 20"
  using assms by (auto simp: unpack_header_def CMAP_HEADER_STRUCT_def split: if_splits)

lemma cwdh_record_next_offset:
  assumes "cwdh_record ord data c = Some (sec, c')"
  shows "cwdh_next_offset ord data c = Some c'"
proof -
  let ?h = "py_slice data (c - 8) (c - 8 + CWDH_HEADER_SIZE)"
  from assms obtain m f where u: "unpack_header ord CWDH_HEADER_STRUCT ?h = Inr (m, f)"
    and c': "c' = f ! 3"
    by (auto simp: cwdh_record_def split: sum.splits prod.splits if_splits)
  from cwdh_header_fields [OF u] c' show ?thesis
    by (simp add: cwdh_next_offset_def CWDH_HEADER_SIZE_def)
qed

lemma cmap_record_next_offset:
  assumes "cmap_record ord dbg data c = Some (sec, c')"
  shows "cmap_next_offset ord data c = Some c'"
proof -
  let ?h = "py_slice data (c - 8) (c - 8 + CMAP_HEADER_SIZE)"
  from assms obtain m f where u: "unpack_header ord CMAP_HEADER_STRUCT ?h = Inr (m, f)"
    and c': "c' = f ! 5"
    by (auto simp: cmap_record_def split: sum.splits prod.splits if_splits)
  from cmap_header_fields [OF u] c' show ?thesis
    by (simp add: cmap_next_offset_def CMAP_HEADER_SIZE_def)
qed

text \<open>
  What the two parsers of the loop body return on a well-formed record.
\<close>

lemma cwdh_record_parses:
  assumes "cwdh_record ord data c = Some (sec, c')" "order self = Some ord"
  shows "\<exists>sec0.
      parse_cwdh_header (cls, self) (py_slice data (c - 8) (c - 8 + CWDH_HEADER_SIZE))
        = Inr ((cls\<lparr>cwdh_sections := cwdh_sections cls @ [sec0]\<rparr>, self), Some c')
      \<and> parse_cwdh_data sec0
          (py_slice data (c - 8 + CWDH_HEADER_SIZE)
             (c - 8 + CWDH_HEADER_SIZE + cwdh_size sec0 - CWDH_HEADER_SIZE)) = Inr sec"
proof -
  let ?h = "py_slice data (c - 8) (c - 8 + CWDH_HEADER_SIZE)"
  from assms(1) obtain m f where u: "unpack_header ord CWDH_HEADER_STRUCT ?h = Inr (m, f)"
    and m: "m = CWDH_HEADER_MAGIC" and c': "c' = f ! 3"
    and d: "parse_cwdh_data
              \<lparr> cwdh_start = f ! 1, cwdh_end = f ! 2, cwdh_size = f ! 0, cwdh_data = [] \<rparr>
              (py_slice data (c - 8 + CWDH_HEADER_SIZE)
                 (c - 8 + CWDH_HEADER_SIZE + f ! 0 - CWDH_HEADER_SIZE)) = Inr sec"
    by (auto simp: cwdh_record_def split: sum.splits prod.splits if_splits)
  let ?sec0 = "\<lparr> cwdh_start = f ! 1, cwdh_end = f ! 2, cwdh_size = f ! 0, cwdh_data = [] \<rparr>"
  have "parse_cwdh_header (cls, self) ?h
        = Inr ((cls\<lparr>cwdh_sections := cwdh_sections cls @ [?sec0]\<rparr>, self), Some c')"
    by (simp add: parse_cwdh_header_def assms(2) u m c')
  moreover have "parse_cwdh_data ?sec0
          (py_slice data (c - 8 + CWDH_HEADER_SIZE)
             (c - 8 + CWDH_HEADER_SIZE + cwdh_size ?sec0 - CWDH_HEADER_SIZE)) = Inr sec"
    using d by simp
  ultimately show ?thesis by blast
qed

lemma cmap_record_parses:
  assumes "cmap_record ord (debug self) data c = Some (sec, c')" "order self = Some ord"
  shows "\<exists>sec0.
      parse_cmap_header (cls, self) (py_slice data (c - 8) (c - 8 + CMAP_HEADER_SIZE))
        = Inr ((cls\<lparr>cmap_sections := cmap_sections cls @ [sec0]\<rparr>, self), c')
      \<and> parse_cmap_data ord sec0
          (py_slice data (c - 8 + CMAP_HEADER_SIZE)
             (c - 8 + CMAP_HEADER_SIZE + cmap_size sec0 - CMAP_HEADER_SIZE)) = Inr sec"
proof -
  let ?h = "py_slice data (c - 8) (c - 8 + CMAP_HEADER_SIZE)"
  from assms(1) obtain m f where u: "unpack_header ord CMAP_HEADER_STRUCT ?h = Inr (m, f)"
    and k: "\<not> (debug self \<and> f ! 3 \<notin> {MAPPING_DIRECT, MAPPING_TABLE, MAPPING_SCAN})"
    and c': "c' = f ! 5"
    and d: "parse_cmap_data ord
              \<lparr> cmap_size = f ! 0, cmap_start = f ! 1, cmap_end = f ! 2, cmap_type = f ! 3,
                indexOffset = None, indexTable = None, entries = None \<rparr>
              (py_slice data (c - 8 + CMAP_HEADER_SIZE)
                 (c - 8 + CMAP_HEADER_SIZE + f ! 0 - CMAP_HEADER_SIZE)) = Inr sec"
    by (auto simp: cmap_record_def split: sum.splits prod.splits if_splits)
  let ?sec0 = "\<lparr> cmap_size = f ! 0, cmap_start = f ! 1, cmap_end = f ! 2, cmap_type = f ! 3,
                indexOffset = None, indexTable = None, entries = None \<rparr>"
  have "parse_cmap_header (cls, self) ?h
        = Inr ((cls\<lparr>cmap_sections := cmap_sections cls @ [?sec0]\<rparr>, self), c')"
    using k by (simp add: parse_cmap_header_def assms(2) u c')
  moreover have "parse_cmap_data ord ?sec0
          (py_slice data (c - 8 + CMAP_HEADER_SIZE)
             (c - 8 + CMAP_HEADER_SIZE + cmap_size ?sec0 - CMAP_HEADER_SIZE)) = Inr sec"
    using d by simp
  ultimately show ?thesis by blast
qed

text \<open>
  One iteration of a loop on a well-formed record: the section is appended and the walk
  goes on at the next offset of the record.
\<close>

lemma cwdh_loop_record:
  assumes "order (snd st) = Some ord" "0 < c" "cwdh_record ord data c = Some (sec, c')"
  shows "cwdh_loop data st c
         = cwdh_loop data ((fst st)\<lparr>cwdh_sections := cwdh_sections (fst st) @ [sec]\<rparr>, snd st) c'"
proof -
  obtain cls self where st: "st = (cls, self)" by (cases st)
  from assms(1) st have o: "order self = Some ord" by simp
  from cwdh_record_parses [OF assms(3) o, of cls] obtain sec0 where
    h: "parse_cwdh_header (cls, self) (py_slice data (c - 8) (c - 8 + CWDH_HEADER_SIZE))
        = Inr ((cls\<lparr>cwdh_sections := cwdh_sections cls @ [sec0]\<rparr>, self), Some c')"
    and d: "parse_cwdh_data sec0
          (py_slice data (c - 8 + CWDH_HEADER_SIZE)
             (c - 8 + CWDH_HEADER_SIZE + cwdh_size sec0 - CWDH_HEADER_SIZE)) = Inr sec"
    by blast
  show ?thesis
    by (subst cwdh_loop.simps) (simp add: st assms(2) Let_def h d [simplified])
qed

lemma cmap_loop_record:
  assumes "order (snd st) = Some ord" "\<not> invalid (snd st)" "0 < c"
    "cmap_record ord (debug (snd st)) data c = Some (sec, c')"
  shows "cmap_loop data st c
         = cmap_loop data ((fst st)\<lparr>cmap_sections := cmap_sections (fst st) @ [sec]\<rparr>, snd st) c'"
proof -
  obtain cls self where st: "st = (cls, self)" by (cases st)
  from assms(1,2) st have o: "order self = Some ord" and i: "\<not> invalid self" by simp_all
  from assms(4) st have r: "cmap_record ord (debug self) data c = Some (sec, c')" by simp
  from cmap_record_parses [OF r o, of cls] obtain sec0 where
    h: "parse_cmap_header (cls, self) (py_slice data (c - 8) (c - 8 + CMAP_HEADER_SIZE))
        = Inr ((cls\<lparr>cmap_sections := cmap_sections cls @ [sec0]\<rparr>, self), c')"
    and d: "parse_cmap_data ord sec0
          (py_slice data (c - 8 + CMAP_HEADER_SIZE)
             (c - 8 + CMAP_HEADER_SIZE + cmap_size sec0 - CMAP_HEADER_SIZE)) = Inr sec"
    by blast
  show ?thesis
    by (subst cmap_loop.simps) (simp add: st assms(3) Let_def h d [simplified] o i)
qed

text \<open>
  One iteration on any record: the loop returns there, or it goes on at the next-offset
  field of the header, in the same byte order.
\<close>

lemma cwdh_loop_cases:
  assumes "order (snd st) = Some ord" "0 < c"
  shows "(\<exists>r. cwdh_loop data st c = Some r)
       \<or> (\<exists>c' st'. cwdh_next_offset ord data c = Some c' \<and> order (snd st') = Some ord
             \<and> cwdh_loop data st c = cwdh_loop data st' c')"
proof -
  obtain cls self where st: "st = (cls, self)" by (cases st)
  from assms(1) st have o: "order self = Some ord" by simp
  let ?h = "py_slice data (c - 8) (c - 8 + CWDH_HEADER_SIZE)"
  show ?thesis
  proof (cases "unpack_header ord CWDH_HEADER_STRUCT ?h")
    case (Inl e)
    then have "parse_cwdh_header (cls, self) ?h = Inl e"
      by (simp add: parse_cwdh_header_def o)
    then have "cwdh_loop data st c = Some (Inl e)"
      by (subst cwdh_loop.simps) (simp add: st assms(2) Let_def)
    then show ?thesis by blast
  next
    case (Inr mf)
    obtain m f where mf: "mf = (m, f)" by (cases mf)
    note u = Inr [unfolded mf]
    from cwdh_header_fields [OF u] have n: "cwdh_next_offset ord data c = Some (f ! 3)"
      by (simp add: cwdh_next_offset_def CWDH_HEADER_SIZE_def)
    show ?thesis
    proof (cases "m = CWDH_HEADER_MAGIC")
      case False
      then have "parse_cwdh_header (cls, self) ?h = Inr ((cls, self\<lparr>invalid := True\<rparr>), None)"
        by (simp add: parse_cwdh_header_def o u)
      then have "cwdh_loop data st c = Some (Inr (Return (cls, self\<lparr>invalid := True\<rparr>)))"
        by (subst cwdh_loop.simps) (simp add: st assms(2) Let_def)
      then show ?thesis by blast
    next
      case True
      let ?sec0 = "\<lparr> cwdh_start = f ! 1, cwdh_end = f ! 2, cwdh_size = f ! 0, cwdh_data = [] \<rparr>"
      let ?p = "py_slice data (c - 8 + CWDH_HEADER_SIZE)
                  (c - 8 + CWDH_HEADER_SIZE + f ! 0 - CWDH_HEADER_SIZE)"
      have h: "parse_cwdh_header (cls, self) ?h
          = Inr ((cls\<lparr>cwdh_sections := cwdh_sections cls @ [?sec0]\<rparr>, self), Some (f ! 3))"
        by (simp add: parse_cwdh_header_def o u True)
      show ?thesis
      proof (cases "parse_cwdh_data ?sec0 ?p")
        case (Inl e)
        have "cwdh_loop data st c = Some (Inl e)"
          by (subst cwdh_loop.simps) (simp add: st assms(2) Let_def h Inl [simplified])
        then show ?thesis by blast
      next
        case (Inr sec)
        have "cwdh_loop data st c
              = cwdh_loop data (cls\<lparr>cwdh_sections := cwdh_sections cls @ [sec]\<rparr>, self) (f ! 3)"
          by (subst cwdh_loop.simps) (simp add: st assms(2) Let_def h Inr [simplified])
        with n o show ?thesis by auto
      qed
    qed
  qed
qed

lemma cmap_loop_cases:
  assumes "order (snd st) = Some ord" "0 < c"
  shows "(\<exists>r. cmap_loop data st c = Some r)
       \<or> (\<exists>c' st'. cmap_next_offset ord data c = Some c' \<and> order (snd st') = Some ord
             \<and> cmap_loop data st c = cmap_loop data st' c')"
proof -
  obtain cls self where st: "st = (cls, self)" by (cases st)
  from assms(1) st have o: "order self = Some ord" by simp
  let ?h = "py_slice data (c - 8) (c - 8 + CMAP_HEADER_SIZE)"
  show ?thesis
  proof (cases "parse_cmap_header (cls, self) ?h")
    case (Inl e)
    then have "cmap_loop data st c = Some (Inl e)"
      by (subst cmap_loop.simps) (simp add: st assms(2) Let_def)
    then show ?thesis by blast
  next
    case (Inr r)
    obtain st1 c' where r: "r = (st1, c')" by (cases r)
    note h = Inr [unfolded r]
    from h obtain m f where u: "unpack_header ord CMAP_HEADER_STRUCT ?h = Inr (m, f)"
      and c': "c' = f ! 5" and s1: "snd st1 = self"
      by (auto simp: parse_cmap_header_def o split: sum.splits prod.splits if_splits)
    from cmap_header_fields [OF u] c' have n: "cmap_next_offset ord data c = Some c'"
      by (simp add: cmap_next_offset_def CMAP_HEADER_SIZE_def)
    show ?thesis
    proof (cases "invalid (snd st1)")
      case True
      then have "cmap_loop data st c = Some (Inr (Return st1))"
        by (subst cmap_loop.simps) (simp add: st assms(2) Let_def h)
      then show ?thesis by blast
    next
      case False
      let ?info = "last (cmap_sections (fst st1))"
      let ?p = "py_slice data (c - 8 + CMAP_HEADER_SIZE)
                  (c - 8 + CMAP_HEADER_SIZE + cmap_size ?info - CMAP_HEADER_SIZE)"
      show ?thesis
      proof (cases "parse_cmap_data (the (order (snd st1))) ?info ?p")
        case (Inl e)
        have "cmap_loop data st c = Some (Inl e)"
          by (subst cmap_loop.simps) (simp add: st assms(2) Let_def h False Inl [simplified])
        then show ?thesis by blast
      next
        case (Inr sec)
        have "cmap_loop data st c
              = cmap_loop data
                  ((fst st1)\<lparr>cmap_sections := butlast (cmap_sections (fst st1)) @ [sec]\<rparr>, snd st1) c'"
          by (subst cmap_loop.simps) (simp add: st assms(2) Let_def h False Inr [simplified])
        with n o s1 show ?thesis by auto
      qed
    qed
  qed
qed

text \<open>
  A walk whose next offsets reach 0 returns.
\<close>

lemma cwdh_loop_returns:
  assumes "reaches_zero (cwdh_next_offset ord data) k c" "order (snd st) = Some ord"
  shows "\<exists>r. cwdh_loop data st c = Some r"
  using assms
proof (induction k arbitrary: st c)
  case 0
  then have "\<not> 0 < c" by simp
  then have "cwdh_loop data st c = Some (Inr (Next st))"
    by (subst cwdh_loop.simps) simp
  then show ?case by blast
next
  case (Suc k)
  show ?case
  proof (cases "0 < c")
    case False
    then have "cwdh_loop data st c = Some (Inr (Next st))"
      by (subst cwdh_loop.simps) simp
    then show ?thesis by blast
  next
    case True
    from cwdh_loop_cases [OF Suc.prems(2) True, of data] show ?thesis
    proof
      assume "\<exists>r. cwdh_loop data st c = Some r"
      then show ?thesis .
    next
      assume "\<exists>c' st'. cwdh_next_offset ord data c = Some c' \<and> order (snd st') = Some ord
             \<and> cwdh_loop data st c = cwdh_loop data st' c'"
      then obtain c' st' where n: "cwdh_next_offset ord data c = Some c'"
        and o: "order (snd st') = Some ord"
        and e: "cwdh_loop data st c = cwdh_loop data st' c'" by blast
      from Suc.prems(1) True n have "reaches_zero (cwdh_next_offset ord data) k c'" by simp
      from Suc.IH [OF this o] e show ?thesis by simp
    qed
  qed
qed

lemma cmap_loop_returns:
  assumes "reaches_zero (cmap_next_offset ord data) k c" "order (snd st) = Some ord"
  shows "\<exists>r. cmap_loop data st c = Some r"
  using assms
proof (induction k arbitrary: st c)
  case 0
  then have "\<not> 0 < c" by simp
  then have "cmap_loop data st c = Some (Inr (Next st))"
    by (subst cmap_loop.simps) simp
  then show ?case by blast
next
  case (Suc k)
  show ?case
  proof (cases "0 < c")
    case False
    then have "cmap_loop data st c = Some (Inr (Next st))"
      by (subst cmap_loop.simps) simp
    then show ?thesis by blast
  next
    case True
    from cmap_loop_cases [OF Suc.prems(2) True, of data] show ?thesis
    proof
      assume "\<exists>r. cmap_loop data st c = Some r"
      then show ?thesis .
    next
      assume "\<exists>c' st'. cmap_next_offset ord data c = Some c' \<and> order (snd st') = Some ord
             \<and> cmap_loop data st c = cmap_loop data st' c'"
      then obtain c' st' where n: "cmap_next_offset ord data c = Some c'"
        and o: "order (snd st') = Some ord"
        and e: "cmap_loop data st c = cmap_loop data st' c'" by blast
      from Suc.prems(1) True n have "reaches_zero (cmap_next_offset ord data) k c'" by simp
      from Suc.IH [OF this o] e show ?thesis by simp
    qed
  qed
qed

text \<open>
  A walk along a chain of well-formed records that reaches 0 returns past the loop with
  exactly the sections of the chain appended.
\<close>

lemma cwdh_loop_chain:
  assumes "cwdh_chain ord data k c = Some rs" "order (snd st) = Some ord"
  shows "cwdh_loop data st c
         = Some (Inr (Next ((fst st)\<lparr>cwdh_sections := cwdh_sections (fst st) @ rs\<rparr>, snd st)))"
  using assms
proof (induction k arbitrary: st c rs)
  case 0
  then have c: "\<not> 0 < c" and rs: "rs = []" by (simp_all split: if_splits)
  show ?case
    unfolding rs using c by (subst cwdh_loop.simps) simp
next
  case (Suc k)
  show ?case
  proof (cases "0 < c")
    case False
    with Suc.prems(1) have rs: "rs = []" by simp
    show ?thesis
      unfolding rs using False by (subst cwdh_loop.simps) simp
  next
    case True
    with Suc.prems(1) obtain sec c' rs' where r: "cwdh_record ord data c = Some (sec, c')"
      and ch: "cwdh_chain ord data k c' = Some rs'" and rs: "rs = sec # rs'"
      by (auto split: option.splits)
    let ?st' = "((fst st)\<lparr>cwdh_sections := cwdh_sections (fst st) @ [sec]\<rparr>, snd st)"
    have o: "order (snd ?st') = Some ord" using Suc.prems(2) by simp
    have "cwdh_loop data st c = cwdh_loop data ?st' c'"
      by (rule cwdh_loop_record [OF Suc.prems(2) True r])
    also have "\<dots> = Some (Inr (Next ((fst ?st')\<lparr>cwdh_sections := cwdh_sections (fst ?st') @ rs'\<rparr>,
                                      snd ?st')))"
      by (rule Suc.IH [OF ch o])
    finally show ?thesis by (simp add: rs)
  qed
qed

lemma cmap_loop_chain:
  assumes "cmap_chain ord (debug (snd st)) data k c = Some ms" "order (snd st) = Some ord"
    "\<not> invalid (snd st)"
  shows "cmap_loop data st c
         = Some (Inr (Next ((fst st)\<lparr>cmap_sections := cmap_sections (fst st) @ ms\<rparr>, snd st)))"
  using assms
proof (induction k arbitrary: st c ms)
  case 0
  then have c: "\<not> 0 < c" and ms: "ms = []" by (simp_all split: if_splits)
  show ?case
    unfolding ms using c by (subst cmap_loop.simps) simp
next
  case (Suc k)
  show ?case
  proof (cases "0 < c")
    case False
    with Suc.prems(1) have ms: "ms = []" by simp
    show ?thesis
      unfolding ms using False by (subst cmap_loop.simps) simp
  next
    case True
    with Suc.prems(1) obtain sec c' ms' where
      r: "cmap_record ord (debug (snd st)) data c = Some (sec, c')"
      and ch: "cmap_chain ord (debug (snd st)) data k c' = Some ms'" and ms: "ms = sec # ms'"
      by (auto split: option.splits)
    let ?st' = "((fst st)\<lparr>cmap_sections := cmap_sections (fst st) @ [sec]\<rparr>, snd st)"
    have o: "order (snd ?st') = Some ord" and i: "\<not> invalid (snd ?st')"
      using Suc.prems(2,3) by simp_all
    have ch': "cmap_chain ord (debug (snd ?st')) data k c' = Some ms'" using ch by simp
    have "cmap_loop data st c = cmap_loop data ?st' c'"
      by (rule cmap_loop_record [OF Suc.prems(2,3) True r])
    also have "\<dots> = Some (Inr (Next ((fst ?st')\<lparr>cmap_sections := cmap_sections (fst ?st') @ ms'\<rparr>,
                                      snd ?st')))"
      by (rule Suc.IH [OF ch' o i])
    finally show ?thesis by (simp add: ms)
  qed
qed

text \<open>
  A walk that stays on well-formed records with offsets above 0 never returns: \<open>C\<close> is any
  set of such offsets that holds the next offset of each of its records. A record that
  names itself is the set of one offset.
\<close>

lemma cwdh_loop_stays:
  assumes "cwdh_loop data0 st c = Some r"
    and closed: "\<forall>a\<in>C. 0 < a \<and> (\<exists>sec b. cwdh_record ord data a = Some (sec, b) \<and> b \<in> C)"
  shows "\<not> (data0 = data \<and> c \<in> C \<and> order (snd st) = Some ord)"
proof (rule cwdh_loop.raw_induct
    [where P = "\<lambda>data0 st c r. \<not> (data0 = data \<and> c \<in> C \<and> order (snd st) = Some ord)",
      OF _ assms(1)],
    goal_cases)
  case (1 f data0 st c r)
  show ?case
  proof
    assume a: "data0 = data \<and> c \<in> C \<and> order (snd st) = Some ord"
    obtain cls self where st: "st = (cls, self)" by (cases st)
    from a st have o: "order self = Some ord" by simp
    from a closed obtain sec b where pos: "0 < c"
      and rec: "cwdh_record ord data c = Some (sec, b)" and b: "b \<in> C" by blast
    from cwdh_record_parses [OF rec o, of cls] obtain sec0 where
      h: "parse_cwdh_header (cls, self) (py_slice data (c - 8) (c - 8 + CWDH_HEADER_SIZE))
          = Inr ((cls\<lparr>cwdh_sections := cwdh_sections cls @ [sec0]\<rparr>, self), Some b)"
      and d: "parse_cwdh_data sec0
            (py_slice data (c - 8 + CWDH_HEADER_SIZE)
               (c - 8 + CWDH_HEADER_SIZE + cwdh_size sec0 - CWDH_HEADER_SIZE)) = Inr sec"
      by blast
    from 1(2) a pos have "f data (cls\<lparr>cwdh_sections := cwdh_sections cls @ [sec]\<rparr>, self) b = Some r"
      by (simp add: st Let_def h d [simplified])
    from 1(1) [OF this] b o show False by simp
  qed
qed

lemma cmap_loop_stays:
  assumes "cmap_loop data0 st c = Some r"
    and closed: "\<forall>a\<in>C. 0 < a \<and> (\<exists>sec b. cmap_record ord dbg data a = Some (sec, b) \<and> b \<in> C)"
  shows "\<not> (data0 = data \<and> c \<in> C \<and> order (snd st) = Some ord \<and> debug (snd st) = dbg
            \<and> \<not> invalid (snd st))"
proof (rule cmap_loop.raw_induct
    [where P = "\<lambda>data0 st c r. \<not> (data0 = data \<and> c \<in> C \<and> order (snd st) = Some ord
                                   \<and> debug (snd st) = dbg \<and> \<not> invalid (snd st))",
      OF _ assms(1)],
    goal_cases)
  case (1 f data0 st c r)
  show ?case
  proof
    assume a: "data0 = data \<and> c \<in> C \<and> order (snd st) = Some ord \<and> debug (snd st) = dbg
                 \<and> \<not> invalid (snd st)"
    obtain cls self where st: "st = (cls, self)" by (cases st)
    from a st have o: "order self = Some ord" and g: "debug self = dbg" and i: "\<not> invalid self"
      by simp_all
    from a closed obtain sec b where pos: "0 < c"
      and rec: "cmap_record ord dbg data c = Some (sec, b)" and b: "b \<in> C" by blast
    from rec g have rec': "cmap_record ord (debug self) data c = Some (sec, b)" by simp
    from cmap_record_parses [OF rec' o, of cls] obtain sec0 where
      h: "parse_cmap_header (cls, self) (py_slice data (c - 8) (c - 8 + CMAP_HEADER_SIZE))
          = Inr ((cls\<lparr>cmap_sections := cmap_sections cls @ [sec0]\<rparr>, self), b)"
      and d: "parse_cmap_data ord sec0
            (py_slice data (c - 8 + CMAP_HEADER_SIZE)
               (c - 8 + CMAP_HEADER_SIZE + cmap_size sec0 - CMAP_HEADER_SIZE)) = Inr sec"
      by blast
    from 1(2) a pos have "f data (cls\<lparr>cmap_sections := cmap_sections cls @ [sec]\<rparr>, self) b = Some r"
      by (simp add: st Let_def h d [simplified] o i)
    from 1(1) [OF this] b o g i show False by simp
  qed
qed

text \<open>
  Claim C4, as the code has it. The two chain walks of \<open>read\<close> follow the next-offset field
  of each record header and stop at an offset that is not above 0. For every input whose
  chain of next-offset fields reaches 0 after finitely many records, the walk returns. A
  well-formed record with a next offset of 0 ends the chain after exactly that record, and
  a chain of well-formed records that reaches 0 is parsed into exactly its sections, in
  order. A chain that never reaches 0 is not detected: no error is raised for it, and when
  every record on it is well formed the walk never returns; a well-formed record whose next
  offset is its own offset is such a chain. This holds for the CWDH loop and for the CMAP
  loop.
\<close>

theorem chain_walks_follow_next_offsets:
  "(order (snd st) = Some ord \<and> reaches_zero (cwdh_next_offset ord data) k c
      \<longrightarrow> (\<exists>r. cwdh_loop data st c = Some r))
   \<and> (order (snd st) = Some ord \<and> 0 < c \<and> cwdh_record ord data c = Some (sec, 0)
      \<longrightarrow> cwdh_loop data st c
            = Some (Inr (Next ((fst st)\<lparr>cwdh_sections := cwdh_sections (fst st) @ [sec]\<rparr>, snd st))))
   \<and> (order (snd st) = Some ord \<and> cwdh_chain ord data k c = Some rs
      \<longrightarrow> cwdh_loop data st c
            = Some (Inr (Next ((fst st)\<lparr>cwdh_sections := cwdh_sections (fst st) @ rs\<rparr>, snd st))))
   \<and> (order (snd st) = Some ord \<and> c \<in> C
        \<and> (\<forall>a\<in>C. 0 < a \<and> (\<exists>s b. cwdh_record ord data a = Some (s, b) \<and> b \<in> C))
      \<longrightarrow> cwdh_loop data st c = None)
   \<and> (order (snd st) = Some ord \<and> 0 < c \<and> cwdh_record ord data c = Some (sec, c)
      \<longrightarrow> cwdh_loop data st c = None)
   \<and> (order (snd st) = Some ord \<and> reaches_zero (cmap_next_offset ord data) k m
      \<longrightarrow> (\<exists>r. cmap_loop data st m = Some r))
   \<and> (order (snd st) = Some ord \<and> \<not> invalid (snd st) \<and> 0 < m
        \<and> cmap_record ord (debug (snd st)) data m = Some (msec, 0)
      \<longrightarrow> cmap_loop data st m
            = Some (Inr (Next ((fst st)\<lparr>cmap_sections := cmap_sections (fst st) @ [msec]\<rparr>, snd st))))
   \<and> (order (snd st) = Some ord \<and> \<not> invalid (snd st)
        \<and> cmap_chain ord (debug (snd st)) data k m = Some ms
      \<longrightarrow> cmap_loop data st m
            = Some (Inr (Next ((fst st)\<lparr>cmap_sections := cmap_sections (fst st) @ ms\<rparr>, snd st))))
   \<and> (order (snd st) = Some ord \<and> \<not> invalid (snd st) \<and> m \<in> M
        \<and> (\<forall>a\<in>M. 0 < a \<and> (\<exists>s b. cmap_record ord (debug (snd st)) data a = Some (s, b) \<and> b \<in> M))
      \<longrightarrow> cmap_loop data st m = None)
   \<and> (order (snd st) = Some ord \<and> \<not> invalid (snd st) \<and> 0 < m
        \<and> cmap_record ord (debug (snd st)) data m = Some (msec, m)
      \<longrightarrow> cmap_loop data st m = None)"
proof -
  have w1: "\<exists>r. cwdh_loop data st c = Some r"
    if "order (snd st) = Some ord" "reaches_zero (cwdh_next_offset ord data) k c"
    by (rule cwdh_loop_returns [OF that(2,1)])
  have w2: "cwdh_loop data st c
            = Some (Inr (Next ((fst st)\<lparr>cwdh_sections := cwdh_sections (fst st) @ [sec]\<rparr>, snd st)))"
    if "order (snd st) = Some ord" "0 < c" "cwdh_record ord data c = Some (sec, 0)"
  proof -
    have "cwdh_chain ord data (Suc 0) c = Some [sec]" using that(2,3) by simp
    from cwdh_loop_chain [OF this that(1)] show ?thesis .
  qed
  have w3: "cwdh_loop data st c
            = Some (Inr (Next ((fst st)\<lparr>cwdh_sections := cwdh_sections (fst st) @ rs\<rparr>, snd st)))"
    if "order (snd st) = Some ord" "cwdh_chain ord data k c = Some rs"
    by (rule cwdh_loop_chain [OF that(2,1)])
  have w4: "cwdh_loop data st c = None"
    if "order (snd st) = Some ord" "c \<in> D"
      "\<forall>a\<in>D. 0 < a \<and> (\<exists>s b. cwdh_record ord data a = Some (s, b) \<and> b \<in> D)" for D
  proof (cases "cwdh_loop data st c")
    case None
    then show ?thesis .
  next
    case (Some r)
    from cwdh_loop_stays [OF Some that(3)] that(1,2) show ?thesis by simp
  qed
  have w5: "cwdh_loop data st c = None"
    if "order (snd st) = Some ord" "0 < c" "cwdh_record ord data c = Some (sec, c)"
    by (rule w4 [of "{c}"]) (use that in simp_all)
  have m1: "\<exists>r. cmap_loop data st m = Some r"
    if "order (snd st) = Some ord" "reaches_zero (cmap_next_offset ord data) k m"
    by (rule cmap_loop_returns [OF that(2,1)])
  have m2: "cmap_loop data st m
            = Some (Inr (Next ((fst st)\<lparr>cmap_sections := cmap_sections (fst st) @ [msec]\<rparr>, snd st)))"
    if "order (snd st) = Some ord" "\<not> invalid (snd st)" "0 < m"
      "cmap_record ord (debug (snd st)) data m = Some (msec, 0)"
  proof -
    have "cmap_chain ord (debug (snd st)) data (Suc 0) m = Some [msec]" using that(3,4) by simp
    from cmap_loop_chain [OF this that(1,2)] show ?thesis .
  qed
  have m3: "cmap_loop data st m
            = Some (Inr (Next ((fst st)\<lparr>cmap_sections := cmap_sections (fst st) @ ms\<rparr>, snd st)))"
    if "order (snd st) = Some ord" "\<not> invalid (snd st)"
      "cmap_chain ord (debug (snd st)) data k m = Some ms"
    by (rule cmap_loop_chain [OF that(3,1,2)])
  have m4: "cmap_loop data st m = None"
    if "order (snd st) = Some ord" "\<not> invalid (snd st)" "m \<in> D"
      "\<forall>a\<in>D. 0 < a \<and> (\<exists>s b. cmap_record ord (debug (snd st)) data a = Some (s, b) \<and> b \<in> D)"
    for D
  proof (cases "cmap_loop data st m")
    case None
    then show ?thesis .
  next
    case (Some r)
    from cmap_loop_stays [OF Some that(4)] that(1,2,3) show ?thesis by simp
  qed
  have m5: "cmap_loop data st m = None"
    if "order (snd st) = Some ord" "\<not> invalid (snd st)" "0 < m"
      "cmap_record ord (debug (snd st)) data m = Some (msec, m)"
    by (rule m4 [of "{m}"]) (use that in simp_all)
  show ?thesis
    using w1 w2 w3 w4 [of C] w5 m1 m2 m3 m4 [of M] m5 by (intro conjI impI) (elim conjE, blast)+
qed

theorem chain_walks_follow_next_offsets_witness:
  "reaches_zero (cwdh_next_offset LittleEndian container_two_ranges) 2 92
   \<and> (\<exists>r. cwdh_loop container_two_ranges
             (empty_class, (new_Bffnt False)\<lparr>order := Some LittleEndian\<rparr>) 92 = Some r)
   \<and> cwdh_chain LittleEndian container_two_ranges 2 92
       = Some [\<lparr> cwdh_start = 0, cwdh_end = 0, cwdh_size = 20,
                  cwdh_data = [\<lparr> left = 0, glyph = 8, char = 8 \<rparr>] \<rparr>,
               \<lparr> cwdh_start = 1, cwdh_end = 1, cwdh_size = 20,
                  cwdh_data = [\<lparr> left = 1, glyph = 7, char = 9 \<rparr>] \<rparr>]
   \<and> cwdh_loop container_two_ranges
         (empty_class, (new_Bffnt False)\<lparr>order := Some LittleEndian\<rparr>) 92
       = Some (Inr (Next (\<lparr> cwdh_sections =
                               [\<lparr> cwdh_start = 0, cwdh_end = 0, cwdh_size = 20,
                                   cwdh_data = [\<lparr> left = 0, glyph = 8, char = 8 \<rparr>] \<rparr>,
                                \<lparr> cwdh_start = 1, cwdh_end = 1, cwdh_size = 20,
                                   cwdh_data = [\<lparr> left = 1, glyph = 7, char = 9 \<rparr>] \<rparr>],
                             cmap_sections = [] \<rparr>,
                           (new_Bffnt False)\<lparr>order := Some LittleEndian\<rparr>)))
   \<and> cwdh_record LittleEndian container_ok 92
       = Some (\<lparr> cwdh_start = 0, cwdh_end = 0, cwdh_size = 20,
                 cwdh_data = [\<lparr> left = 0, glyph = 8, char = 8 \<rparr>] \<rparr>, 0)
   \<and> cwdh_loop container_ok (empty_class, (new_Bffnt False)\<lparr>order := Some LittleEndian\<rparr>) 92
       = Some (Inr (Next (\<lparr> cwdh_sections =
                               [\<lparr> cwdh_start = 0, cwdh_end = 0, cwdh_size = 20,
                                   cwdh_data = [\<lparr> left = 0, glyph = 8, char = 8 \<rparr>] \<rparr>],
                             cmap_sections = [] \<rparr>,
                           (new_Bffnt False)\<lparr>order := Some LittleEndian\<rparr>)))
   \<and> cwdh_record LittleEndian container_cwdh_cycle 92
       = Some (\<lparr> cwdh_start = 0, cwdh_end = 0, cwdh_size = 20,
                 cwdh_data = [\<lparr> left = 0, glyph = 8, char = 8 \<rparr>] \<rparr>, 92)
   \<and> cwdh_loop container_cwdh_cycle
         (empty_class, (new_Bffnt False)\<lparr>order := Some LittleEndian\<rparr>) 92 = None
   \<and> reaches_zero (cmap_next_offset LittleEndian container_two_ranges) 2 132
   \<and> (\<exists>r. cmap_loop container_two_ranges
             (empty_class, (new_Bffnt False)\<lparr>order := Some LittleEndian\<rparr>) 132 = Some r)
   \<and> cmap_chain LittleEndian False container_two_ranges 2 132
       = Some [\<lparr> cmap_size = 24, cmap_start = 65, cmap_end = 65, cmap_type = 0,
                  indexOffset = Some 0, indexTable = None, entries = None \<rparr>,
               \<lparr> cmap_size = 24, cmap_start = 66, cmap_end = 66, cmap_type = 0,
                  indexOffset = Some 1, indexTable = None, entries = None \<rparr>]
   \<and> cmap_loop container_two_ranges
         (empty_class, (new_Bffnt False)\<lparr>order := Some LittleEndian\<rparr>) 132
       = Some (Inr (Next (\<lparr> cwdh_sections = [],
                             cmap_sections =
                               [\<lparr> cmap_size = 24, cmap_start = 65, cmap_end = 65, cmap_type = 0,
                                   indexOffset = Some 0, indexTable = None, entries = None \<rparr>,
                                \<lparr> cmap_size = 24, cmap_start = 66, cmap_end = 66, cmap_type = 0,
                                   indexOffset = Some 1, indexTable = None, entries = None \<rparr>] \<rparr>,
                           (new_Bffnt False)\<lparr>order := Some LittleEndian\<rparr>)))
   \<and> cmap_record LittleEndian False container_cmap_cycle 112
       = Some (\<lparr> cmap_size = 24, cmap_start = 65, cmap_end = 65, cmap_type = 0,
                 indexOffset = Some 0, indexTable = None, entries = None \<rparr>, 112)
   \<and> cmap_loop container_cmap_cycle
         (empty_class, (new_Bffnt False)\<lparr>order := Some LittleEndian\<rparr>) 112 = None"
proof -
  let ?obj = "(new_Bffnt False)\<lparr>order := Some LittleEndian\<rparr>"
  let ?st = "(empty_class, ?obj)"
  let ?a = "\<lparr> cwdh_start = 0, cwdh_end = 0, cwdh_size = 20,
              cwdh_data = [\<lparr> left = 0, glyph = 8, char = 8 \<rparr>] \<rparr>"
  let ?b = "\<lparr> cwdh_start = 1, cwdh_end = 1, cwdh_size = 20,
              cwdh_data = [\<lparr> left = 1, glyph = 7, char = 9 \<rparr>] \<rparr>"
  let ?ma = "\<lparr> cmap_size = 24, cmap_start = 65, cmap_end = 65, cmap_type = 0,
               indexOffset = Some 0, indexTable = None, entries = None \<rparr>"
  let ?mb = "\<lparr> cmap_size = 24, cmap_start = 66, cmap_end = 66, cmap_type = 0,
               indexOffset = Some 1, indexTable = None, entries = None \<rparr>"
  have o: "order (snd ?st) = Some LittleEndian" "\<not> invalid (snd ?st)" "debug (snd ?st) = False"
    by (simp_all add: new_Bffnt_def)
  have f1: "reaches_zero (cwdh_next_offset LittleEndian container_two_ranges) 2 92"
    by code_simp
  have f2: "cwdh_chain LittleEndian container_two_ranges 2 92 = Some [?a, ?b]"
    by code_simp
  have f3: "cwdh_record LittleEndian container_ok 92 = Some (?a, 0)"
    by code_simp
  have f4: "cwdh_record LittleEndian container_cwdh_cycle 92 = Some (?a, 92)"
    by code_simp
  have g1: "reaches_zero (cmap_next_offset LittleEndian container_two_ranges) 2 132"
    by code_simp
  have g2: "cmap_chain LittleEndian False container_two_ranges 2 132 = Some [?ma, ?mb]"
    by code_simp
  have g4: "cmap_record LittleEndian False container_cmap_cycle 112 = Some (?ma, 112)"
    by code_simp
  have e: "(fst ?st)\<lparr>cwdh_sections := cwdh_sections (fst ?st) @ xs\<rparr>
             = \<lparr> cwdh_sections = xs, cmap_sections = [] \<rparr>"
    "(fst ?st)\<lparr>cmap_sections := cmap_sections (fst ?st) @ ys\<rparr>
             = \<lparr> cwdh_sections = [], cmap_sections = ys \<rparr>" for xs ys
    by (simp_all add: empty_class_def)
  note t1 = chain_walks_follow_next_offsets
    [where st = ?st and ord = LittleEndian and data = container_two_ranges and k = 2 and c = 92
       and rs = "[?a, ?b]" and m = 132 and ms = "[?ma, ?mb]"]
  from t1 o(1) f1 have r1: "\<exists>r. cwdh_loop container_two_ranges ?st 92 = Some r" by blast
  from t1 o(1) f2 have r2: "cwdh_loop container_two_ranges ?st 92
      = Some (Inr (Next (\<lparr> cwdh_sections = [?a, ?b], cmap_sections = [] \<rparr>, ?obj)))"
    unfolding e [symmetric] snd_conv by blast
  from t1 o(1) g1 have s1: "\<exists>r. cmap_loop container_two_ranges ?st 132 = Some r" by blast
  from t1 o g2 have s2: "cmap_loop container_two_ranges ?st 132
      = Some (Inr (Next (\<lparr> cwdh_sections = [], cmap_sections = [?ma, ?mb] \<rparr>, ?obj)))"
    unfolding e [symmetric] snd_conv by simp
  note t2 = chain_walks_follow_next_offsets
    [where st = ?st and ord = LittleEndian and data = container_ok and c = 92 and sec = ?a]
  from t2 o(1) f3 have r3: "cwdh_loop container_ok ?st 92
      = Some (Inr (Next (\<lparr> cwdh_sections = [?a], cmap_sections = [] \<rparr>, ?obj)))"
    unfolding e [symmetric] snd_conv by simp
  note t3 = chain_walks_follow_next_offsets
    [where st = ?st and ord = LittleEndian and data = container_cwdh_cycle and c = 92
       and C = "{92}"]
  from t3 o(1) f4 have r4: "cwdh_loop container_cwdh_cycle ?st 92 = None" by simp
  note t4 = chain_walks_follow_next_offsets
    [where st = ?st and ord = LittleEndian and data = container_cmap_cycle and m = 112
       and M = "{112}"]
  from t4 o g4 have s4: "cmap_loop container_cmap_cycle ?st 112 = None" by simp
  from f1 r1 f2 r2 f3 r3 f4 r4 g1 s1 g2 s2 g4 s4 show ?thesis by (intro conjI)
qed

text \<open>
  The claim as written, with a cycle detected and reported, fails: on
  \<open>container_cwdh_cycle\<close>, whose CWDH section names itself as its successor, \<open>read\<close> never
  returns.
\<close>

theorem read_never_returns_on_cwdh_cycle_counterexample:
  "read empty_class (new_Bffnt False) container_cwdh_cycle = None"
proof -
  define s0 where "s0 = (new_Bffnt False)\<lparr>file_size := int (length container_cwdh_cycle)\<rparr>"
  define s1 where "s1 = projr (parse_header s0 (py_slice container_cwdh_cycle 0 FFNT_HEADER_SIZE))"
  define s2 where "s2 = projr (parse_finf s1
      (py_slice container_cwdh_cycle FFNT_HEADER_SIZE (FFNT_HEADER_SIZE + FINF_HEADER_SIZE)))"
  define s3 where "s3 = projr (parse_tglp_header s2
      (py_slice container_cwdh_cycle (tglp_offset s2 - 8) (tglp_offset s2 - 8 + TGLP_HEADER_SIZE)))"
  have e1: "parse_header s0 (py_slice container_cwdh_cycle 0 FFNT_HEADER_SIZE) = Inr s1"
    "\<not> invalid s1"
    unfolding s1_def s0_def by code_simp+
  have e2: "parse_finf s1
      (py_slice container_cwdh_cycle FFNT_HEADER_SIZE (FFNT_HEADER_SIZE + FINF_HEADER_SIZE)) = Inr s2"
    "\<not> invalid s2"
    unfolding s2_def s1_def s0_def by code_simp+
  have e3: "parse_tglp_header s2
      (py_slice container_cwdh_cycle (tglp_offset s2 - 8) (tglp_offset s2 - 8 + TGLP_HEADER_SIZE))
        = Inr s3"
    "\<not> invalid s3" "order s3 = Some LittleEndian" "cwdh_offset s3 = 92"
    unfolding s3_def s2_def s1_def s0_def by code_simp+
  have "cwdh_loop container_cwdh_cycle (empty_class, s3) (cwdh_offset s3) = None"
    using cwdh_cycle_diverges [of "(empty_class, s3)"] e3 by simp
  then show ?thesis
    unfolding read_def Let_def s0_def [symmetric] using e1 e2 e3 by simp
qed

section \<open>Padding after the width and map records\<close>

text \<open>
  Where a CWDH section ends: after the header (16 bytes) and three bytes per glyph index the
  writer adds \<open>position mod 4\<close> bytes, not the \<open>(4 - position mod 4) mod 4\<close> bytes that reach
  the next multiple of 4.
\<close>

lemma write_widths_position:
  "write_widths d codes fp = Inr fp' \<Longrightarrow> snd fp' = snd fp + 3 * length codes"
proof (induction codes arbitrary: fp)
  case Nil
  then show ?case by simp
next
  case (Cons code codes)
  from Cons.prems obtain fp1 where
    "write_widths d codes fp1 = Inr fp'" "snd fp1 = snd fp + 3"
    by (auto simp: Let_def split: if_splits sum.splits)
  with Cons.IH [of fp1] show ?case by simp
qed

lemma write_padding_position: "snd (write_padding fp) = snd fp + snd fp mod 4"
  by (simp add: write_padding_def Let_def)

lemma save_cwdh_section_position:
  assumes "save_cwdh_section ord s cwdh = Inr s'"
  shows "s_position s' =
           (s_position s + 16 + 3 * nat (cwdh_end cwdh - cwdh_start cwdh + 1))
           + (s_position s + 16 + 3 * nat (cwdh_end cwdh - cwdh_start cwdh + 1)) mod 4"
proof -
  from assms obtain f fp fl where
    w: "write_widths (cwdh_data cwdh) [cwdh_start cwdh..cwdh_end cwdh]
          (f, s_position s + nat CWDH_HEADER_SIZE) = Inr fp"
    and p: "s_position s' = snd (write_padding fp)"
    by (auto simp: save_cwdh_section_def Let_def split: sum.splits prod.splits if_splits)
  have "snd fp = s_position s + 16 + 3 * nat (cwdh_end cwdh - cwdh_start cwdh + 1)"
    using write_widths_position [OF w] by (simp add: CWDH_HEADER_SIZE_def)
  then show ?thesis by (simp add: p write_padding_position)
qed

lemma cwdh_padding_odd_count:
  assumes "save_cwdh_section ord s cwdh = Inr s'"
    and "s_position s mod 4 = 0"
    and "odd (nat (cwdh_end cwdh - cwdh_start cwdh + 1))"
  shows "s_position s' mod 4 = 2"
proof -
  define n where "n = nat (cwdh_end cwdh - cwdh_start cwdh + 1)"
  obtain k where n: "n = 2 * k + 1" using assms(3) unfolding n_def by (elim oddE)
  obtain j where j: "s_position s = 4 * j" using assms(2) by (auto elim: dvdE simp: mod_eq_0_iff_dvd)
  define p where "p = s_position s + 16 + 3 * n"
  have pos: "s_position s' = p + p mod 4"
    using save_cwdh_section_position [OF assms(1)] by (simp add: p_def n_def)
  have p4: "p = 4 * (j + 4 + k) + (2 * k + 3)" by (simp add: p_def n j)
  have fin: "s_position s' mod 4 = 2" if "p = 4 * q + r" "r = 1 \<or> r = 3" for q r
  proof -
    have "p mod 4 = r" using that by auto
    then have "p + p mod 4 = 4 * q + (r + r)" using that by simp
    also have "\<dots> mod 4 = (r + r) mod 4" by (rule mod_mult_self4)
    also have "\<dots> = 2" using that(2) by auto
    finally show ?thesis by (simp only: pos)
  qed
  show ?thesis
  proof (cases "even k")
    case True
    then obtain i where "k = 2 * i" by (elim evenE)
    then have "p = 4 * (j + 4 + k + i) + 3" using p4 by simp
    then show ?thesis by (rule fin) simp
  next
    case False
    then obtain i where "k = 2 * i + 1" by (elim oddE)
    then have "p = 4 * (j + 4 + k + i + 1) + 1" using p4 by simp
    then show ?thesis by (rule fin) simp
  qed
qed

text \<open>
  The bytes of one section, written at position 16 of a 16-byte file: the size field holds
  \<open>0x16 = 22\<close>, the 16 bytes of the header, the 3 bytes of the triple and the 3 bytes of
  padding.
\<close>

lemma cwdh_section_bytes:
  "map_sum id (\<lambda>s. (s_position s, drop 16 (fbytes (s_file s))))
     (save_cwdh_sections LittleEndian
        \<lparr> s_file = \<lparr> fbytes = replicate 16 0xAA, fpos = 16 \<rparr>, s_position = 16,
          s_section_count = 2, s_prev_offset_pos = 0 \<rparr>
        [\<lparr> cwdh_start = 0, cwdh_end = 0, cwdh_size = 0,
           cwdh_data = [\<lparr> left = 0, glyph = 8, char = 8 \<rparr>] \<rparr>])
   = Inr (38, [0x43, 0x57, 0x44, 0x48, 0x16, 0, 0, 0, 0, 0, 0, 0, 0, 0, 0, 0, 0, 8, 8, 0, 0, 0])"
  by code_simp

text \<open>
  A CMAP section with one scan entry, started at \<open>0x2116\<close>: 20 bytes of header, 2 of count
  and 4 of entry end at \<open>0x2130\<close>, a multiple of 4, so no padding is written.
\<close>

lemma cmap_scan_section_from_0x2116:
  "map_sum id (\<lambda>s. (s_position s, s_position s mod 4, s_section_count s))
     (save_cmap_sections LittleEndian
        \<lparr> s_file = f, s_position = 0x2116, s_section_count = 3, s_prev_offset_pos = 0 \<rparr>
        [\<lparr> cmap_size = 0, cmap_start = 65, cmap_end = 65, cmap_type = 2, indexOffset = None,
           indexTable = None, entries = Some [(65, 0)] \<rparr>])
   = Inr (0x2130, 0, 4)"
  by (simp add: save_cmap_section_def patch_u32_def pack_uint_def write_padding_def
      CMAP_HEADER_SIZE_def MAPPING_DIRECT_def MAPPING_TABLE_def MAPPING_SCAN_def Let_def)

text \<open>
  Claim C6. After the payload of each CWDH and CMAP section \<open>save\<close> writes zero bytes up to
  the next 4-byte boundary, so that the position after the padding is a multiple of 4, and
  counts them in the section size it writes back. The size does count them (lemma
  \<open>cwdh_section_bytes\<close>), but the position is not brought to a boundary: a font with one
  glyph, whose CWDH section starts at the aligned position \<open>0x2100\<close> (one 8 by 8 RGBA8
  sheet after the texture data offset \<open>0x2000\<close>), ends at \<open>0x2116\<close>, which is 2 modulo 4,
  and the CMAP section starts there.
\<close>

theorem cwdh_padding_misses_boundary:
  "map_sum id (\<lambda>s. (s_position s, s_position s mod 4, s_section_count s))
     (save_cwdh_sections LittleEndian
        \<lparr> s_file = f, s_position = 0x2100, s_section_count = 2, s_prev_offset_pos = 0 \<rparr>
        [\<lparr> cwdh_start = 0, cwdh_end = 0, cwdh_size = 0,
           cwdh_data = [\<lparr> left = 0, glyph = 8, char = 8 \<rparr>] \<rparr>])
   = Inr (0x2116, 2, 3)"
  by (simp add: save_cwdh_section_def patch_u32_def pack_uint_def pack_b_def write_padding_def
      CWDH_HEADER_SIZE_def Let_def)

end
